theory Spec2Isabelle
  imports Main
begin

section \<open>The H=N marketplace contract (objkt\_swap\_v3.py)\<close>

text \<open>
  A shallow embedding of the SmartPy contract \<^verbatim>\<open>Marketplace\<close>. An entry point is a
  function of the call context (\<^verbatim>\<open>sp.sender\<close>, \<^verbatim>\<open>sp.amount\<close>), the storage and its
  parameter; it returns either the failure raised by an \<^verbatim>\<open>sp.verify\<close> (or by a
  failing primitive), or the list of operations it emits together with the new storage.
  Addresses are strings, \<^verbatim>\<open>sp.TNat\<close> is \<open>nat\<close> (unbounded, as in Michelson) and
  \<^verbatim>\<open>sp.TMutez\<close> is a natural number bounded by \<open>2^63 - 1\<close>, whose arithmetic fails
  instead of wrapping.
\<close>

subsection \<open>Data\<close>

type_synonym address = string
type_synonym mutez = nat
type_synonym bytes = string

text \<open>The parameter of \<^verbatim>\<open>swap\<close>; \<^verbatim>\<open>SWAP_TYPE\<close> is the same record with the issuer.\<close>

record swap_params =
  fa2 :: address
  objkt_id :: nat
  objkt_amount :: nat
  xtz_per_objkt :: mutez
  royalties :: nat
  creator :: address

record swap_type = swap_params +
  issuer :: address

record storage =
  manager :: address
  metadata :: "string \<rightharpoonup> bytes"
  allowed_fa2s :: "address \<rightharpoonup> bool"
  swaps :: "nat \<rightharpoonup> swap_type"
  fee :: nat
  fee_recipient :: address
  counter :: nat
  proposed_manager :: "address option"
  swaps_paused :: bool
  collects_paused :: bool

text \<open>What a call brings with it: \<^verbatim>\<open>sp.sender\<close> and \<^verbatim>\<open>sp.amount\<close>.\<close>

record ctx =
  sender :: address
  amount :: mutez

text \<open>
  What the chain fixes for the contract: its own address (\<^verbatim>\<open>sp.self_address\<close>) and the
  addresses at which \<^verbatim>\<open>sp.contract(..., entry_point="transfer")\<close> finds an entry point
  of the FA2 transfer type, and those that \<^verbatim>\<open>sp.send\<close> can pay (an account, or a
  contract with an entry point of type unit). The code of an originated contract never
  changes, so the answer for an address that has the entry point stays the same.
\<close>

record env =
  self_address :: address
  transfer_entry :: "address \<Rightarrow> bool"
  unit_entry :: "address \<Rightarrow> bool"

text \<open>One element of the \<^verbatim>\<open>txs\<close> list of an FA2 transfer: \<^verbatim>\<open>to_\<close>, \<^verbatim>\<open>token_id\<close>, \<^verbatim>\<open>amount\<close>.\<close>

datatype tx = Tx address nat nat

text \<open>One element of the argument of an FA2 transfer: \<^verbatim>\<open>from_\<close> and \<^verbatim>\<open>txs\<close>.\<close>

datatype transfer_item = Transfer_item address "tx list"

text \<open>
  The operations an entry point emits: \<^verbatim>\<open>sp.send(destination, amount)\<close> and
  \<^verbatim>\<open>sp.transfer(arg, amount, destination)\<close> to the transfer entry point of a token
  contract.
\<close>

datatype operation =
    Send address mutez
  | Transfer "transfer_item list" mutez address

text \<open>The failures, one for every message of the source and for every failing primitive.\<close>

datatype error =
    Not_manager                \<comment> \<open>This can only be executed by the manager\<close>
  | Tez_transferred            \<comment> \<open>The operation does not need tez transfers\<close>
  | Swaps_are_paused           \<comment> \<open>Swaps are paused\<close>
  | Token_not_allowed          \<comment> \<open>This token type cannot be traded\<close>
  | No_edition_swapped         \<comment> \<open>At least one edition needs to be swapped\<close>
  | Royalties_too_high         \<comment> \<open>The royalties cannot be higher than 25%\<close>
  | Collects_are_paused        \<comment> \<open>Collects are paused\<close>
  | Swap_id_missing            \<comment> \<open>The provided swap\_id doesn't exist\<close>
  | Collector_is_issuer        \<comment> \<open>The collector cannot be the swap issuer\<close>
  | Wrong_tez_amount           \<comment> \<open>The sent tez amount does not coincide with the edition price\<close>
  | Already_collected          \<comment> \<open>All editions have already been collected\<close>
  | Not_swap_issuer            \<comment> \<open>Only the swap issuer can cancel the swap\<close>
  | All_collected              \<comment> \<open>All editions have been collected\<close>
  | Fee_too_high               \<comment> \<open>The management fee cannot be higher than 25%\<close>
  | No_proposed_manager        \<comment> \<open>No new manager has been proposed\<close>
  | Not_proposed_manager       \<comment> \<open>This can only be executed by the proposed manager\<close>
  | No_transfer_entry_point    \<comment> \<open>\<^verbatim>\<open>open_some\<close> on the result of \<^verbatim>\<open>sp.contract\<close>\<close>
  | No_unit_entry_point        \<comment> \<open>\<^verbatim>\<open>sp.send\<close> to an address that takes no payment\<close>
  | Mutez_overflow             \<comment> \<open>a product of mutez above \<open>2^63 - 1\<close>\<close>
  | Mutez_underflow            \<comment> \<open>a difference of mutez below zero\<close>
  | Division_by_zero           \<comment> \<open>\<^verbatim>\<open>split_tokens\<close> with a zero total\<close>
  | Negative_as_nat            \<comment> \<open>\<^verbatim>\<open>sp.as_nat\<close> of a negative integer\<close>

type_synonym 'a result = "error + 'a"

type_synonym effect = "(operation list \<times> storage) result"

subsection \<open>Primitives\<close>

definition max_mutez :: nat where
  "max_mutez = 2 ^ 63 - 1"

text \<open>\<^verbatim>\<open>sp.split_tokens(m, q, t)\<close>: \<open>m * q / t\<close> on mutez, the quotient rounded down.\<close>

definition split_tokens :: "mutez \<Rightarrow> nat \<Rightarrow> nat \<Rightarrow> mutez result" where
  "split_tokens m q t =
     (if max_mutez < m * q then Inl Mutez_overflow
      else if t = 0 then Inl Division_by_zero
      else Inr (m * q div t))"

text \<open>The difference of two mutez amounts, which fails rather than go below zero.\<close>

definition sub_mutez :: "mutez \<Rightarrow> mutez \<Rightarrow> mutez result" where
  "sub_mutez a b = (if a < b then Inl Mutez_underflow else Inr (a - b))"

definition as_nat :: "int \<Rightarrow> nat result" where
  "as_nat i = (if i < 0 then Inl Negative_as_nat else Inr (nat i))"

text \<open>\<^verbatim>\<open>sp.verify(condition, message)\<close>.\<close>

definition verify :: "bool \<Rightarrow> error \<Rightarrow> unit result" where
  "verify b err = (if b then Inr () else Inl err)"

text \<open>One statement after another: the first failure ends the call.\<close>

definition and_then :: "'a result \<Rightarrow> ('a \<Rightarrow> 'b result) \<Rightarrow> 'b result" where
  "and_then r f = (case r of Inl err \<Rightarrow> Inl err | Inr x \<Rightarrow> f x)"

text \<open>\<^verbatim>\<open>big_map.get(key, default_value=d)\<close>.\<close>

definition get_default :: "('k \<rightharpoonup> 'v) \<Rightarrow> 'k \<Rightarrow> 'v \<Rightarrow> 'v" where
  "get_default m k d = (case m k of None \<Rightarrow> d | Some v \<Rightarrow> v)"

text \<open>\<^verbatim>\<open>sp.send(destination, amount)\<close>.\<close>

definition send :: "env \<Rightarrow> address \<Rightarrow> mutez \<Rightarrow> operation result" where
  "send e dest a = (if unit_entry e dest then Inr (Send dest a) else Inl No_unit_entry_point)"

subsection \<open>Helpers of the contract\<close>

definition init :: "address \<Rightarrow> (string \<rightharpoonup> bytes) \<Rightarrow> (address \<rightharpoonup> bool) \<Rightarrow> nat \<Rightarrow> storage" where
  "init mgr md allowed f =
     \<lparr> manager = mgr, metadata = md, allowed_fa2s = allowed, swaps = Map.empty,
       fee = f, fee_recipient = mgr, counter = 0, proposed_manager = None,
       swaps_paused = False, collects_paused = False \<rparr>"

definition check_is_manager :: "ctx \<Rightarrow> storage \<Rightarrow> unit result" where
  "check_is_manager c s = verify (sender c = manager s) Not_manager"

definition check_no_tez_transfer :: "ctx \<Rightarrow> unit result" where
  "check_no_tez_transfer c = verify (amount c = 0) Tez_transferred"

definition fa2_transfer :: "env \<Rightarrow> address \<Rightarrow> address \<Rightarrow> address \<Rightarrow> nat \<Rightarrow> nat \<Rightarrow> operation result" where
  "fa2_transfer e fa2_addr from_addr to_addr token_id token_amount =
     (if transfer_entry e fa2_addr
      then Inr (Transfer [Transfer_item from_addr [Tx to_addr token_id token_amount]] 0 fa2_addr)
      else Inl No_transfer_entry_point)"

subsection \<open>Entry points\<close>

definition swap :: "env \<Rightarrow> ctx \<Rightarrow> storage \<Rightarrow> swap_params \<Rightarrow> effect" where
  "swap e c s params =
     and_then (verify (\<not> swaps_paused s) Swaps_are_paused) (\<lambda>_.
     and_then (check_no_tez_transfer c) (\<lambda>_.
     and_then (verify (get_default (allowed_fa2s s) (fa2 params) False) Token_not_allowed) (\<lambda>_.
     and_then (verify (0 < objkt_amount params) No_edition_swapped) (\<lambda>_.
     and_then (verify (royalties params \<le> 250) Royalties_too_high) (\<lambda>_.
     and_then (fa2_transfer e (fa2 params) (sender c) (self_address e)
                 (objkt_id params) (objkt_amount params)) (\<lambda>op.
     Inr ([op],
          s\<lparr> swaps := (swaps s)(counter s \<mapsto>
                 \<lparr> fa2 = fa2 params, objkt_id = objkt_id params,
                   objkt_amount = objkt_amount params,
                   xtz_per_objkt = xtz_per_objkt params,
                   royalties = royalties params, creator = creator params,
                   issuer = sender c \<rparr>),
             counter := counter s + 1 \<rparr>)))))))"

text \<open>The tez transfers of \<^verbatim>\<open>collect\<close>, made when the edition price is not zero.\<close>

definition collect_payments :: "env \<Rightarrow> ctx \<Rightarrow> storage \<Rightarrow> swap_type \<Rightarrow> operation list result" where
  "collect_payments e c s swp =
     (if xtz_per_objkt swp \<noteq> 0 then
        and_then (split_tokens (xtz_per_objkt swp) (royalties swp) 1000) (\<lambda>royalties_amount.
        and_then (if 0 < royalties_amount
                  then and_then (send e (creator swp) royalties_amount) (\<lambda>op. Inr [op])
                  else Inr []) (\<lambda>ops1.
        and_then (split_tokens (xtz_per_objkt swp) (fee s) 1000) (\<lambda>fee_amount.
        and_then (if 0 < fee_amount
                  then and_then (send e (fee_recipient s) fee_amount) (\<lambda>op. Inr [op])
                  else Inr []) (\<lambda>ops2.
        and_then (sub_mutez (amount c) royalties_amount) (\<lambda>rest.
        and_then (sub_mutez rest fee_amount) (\<lambda>issuer_amount.
        and_then (send e (issuer swp) issuer_amount) (\<lambda>op.
        Inr (ops1 @ ops2 @ [op]))))))))
      else Inr [])"

definition collect :: "env \<Rightarrow> ctx \<Rightarrow> storage \<Rightarrow> nat \<Rightarrow> effect" where
  "collect e c s swap_id =
     and_then (verify (\<not> collects_paused s) Collects_are_paused) (\<lambda>_.
     case swaps s swap_id of
       None \<Rightarrow> Inl Swap_id_missing
     | Some swp \<Rightarrow>
     and_then (verify (sender c \<noteq> issuer swp) Collector_is_issuer) (\<lambda>_.
     and_then (verify (amount c = xtz_per_objkt swp) Wrong_tez_amount) (\<lambda>_.
     and_then (verify (0 < objkt_amount swp) Already_collected) (\<lambda>_.
     and_then (collect_payments e c s swp) (\<lambda>payments.
     and_then (fa2_transfer e (fa2 swp) (self_address e) (sender c) (objkt_id swp) 1) (\<lambda>op.
     and_then (as_nat (int (objkt_amount swp) - 1)) (\<lambda>n.
     Inr (payments @ [op],
          s\<lparr> swaps := (swaps s)(swap_id \<mapsto> swp\<lparr> objkt_amount := n \<rparr>) \<rparr>))))))))"

definition cancel_swap :: "env \<Rightarrow> ctx \<Rightarrow> storage \<Rightarrow> nat \<Rightarrow> effect" where
  "cancel_swap e c s swap_id =
     and_then (check_no_tez_transfer c) (\<lambda>_.
     case swaps s swap_id of
       None \<Rightarrow> Inl Swap_id_missing
     | Some swp \<Rightarrow>
     and_then (verify (sender c = issuer swp) Not_swap_issuer) (\<lambda>_.
     and_then (verify (0 < objkt_amount swp) All_collected) (\<lambda>_.
     and_then (fa2_transfer e (fa2 swp) (self_address e) (sender c)
                 (objkt_id swp) (objkt_amount swp)) (\<lambda>op.
     Inr ([op], s\<lparr> swaps := (swaps s)(swap_id := None) \<rparr>)))))"

definition update_fee :: "ctx \<Rightarrow> storage \<Rightarrow> nat \<Rightarrow> effect" where
  "update_fee c s new_fee =
     and_then (check_is_manager c s) (\<lambda>_.
     and_then (check_no_tez_transfer c) (\<lambda>_.
     and_then (verify (new_fee \<le> 250) Fee_too_high) (\<lambda>_.
     Inr ([], s\<lparr> fee := new_fee \<rparr>))))"

definition update_fee_recipient :: "ctx \<Rightarrow> storage \<Rightarrow> address \<Rightarrow> effect" where
  "update_fee_recipient c s new_fee_recipient =
     and_then (check_is_manager c s) (\<lambda>_.
     and_then (check_no_tez_transfer c) (\<lambda>_.
     Inr ([], s\<lparr> fee_recipient := new_fee_recipient \<rparr>)))"

definition transfer_manager :: "ctx \<Rightarrow> storage \<Rightarrow> address \<Rightarrow> effect" where
  "transfer_manager c s new_manager =
     and_then (check_is_manager c s) (\<lambda>_.
     and_then (check_no_tez_transfer c) (\<lambda>_.
     Inr ([], s\<lparr> proposed_manager := Some new_manager \<rparr>)))"

definition accept_manager :: "ctx \<Rightarrow> storage \<Rightarrow> effect" where
  "accept_manager c s =
     and_then (verify (proposed_manager s \<noteq> None) No_proposed_manager) (\<lambda>_.
     and_then (verify (Some (sender c) = proposed_manager s) Not_proposed_manager) (\<lambda>_.
     and_then (check_no_tez_transfer c) (\<lambda>_.
     Inr ([], s\<lparr> manager := sender c, proposed_manager := None \<rparr>))))"

definition update_metadata :: "ctx \<Rightarrow> storage \<Rightarrow> string \<Rightarrow> bytes \<Rightarrow> effect" where
  "update_metadata c s k v =
     and_then (check_is_manager c s) (\<lambda>_.
     and_then (check_no_tez_transfer c) (\<lambda>_.
     Inr ([], s\<lparr> metadata := (metadata s)(k \<mapsto> v) \<rparr>)))"

definition add_fa2 :: "ctx \<Rightarrow> storage \<Rightarrow> address \<Rightarrow> effect" where
  "add_fa2 c s a =
     and_then (check_is_manager c s) (\<lambda>_.
     and_then (check_no_tez_transfer c) (\<lambda>_.
     Inr ([], s\<lparr> allowed_fa2s := (allowed_fa2s s)(a \<mapsto> True) \<rparr>)))"

definition remove_fa2 :: "ctx \<Rightarrow> storage \<Rightarrow> address \<Rightarrow> effect" where
  "remove_fa2 c s a =
     and_then (check_is_manager c s) (\<lambda>_.
     and_then (check_no_tez_transfer c) (\<lambda>_.
     Inr ([], s\<lparr> allowed_fa2s := (allowed_fa2s s)(a \<mapsto> False) \<rparr>)))"

definition pause_swaps :: "ctx \<Rightarrow> storage \<Rightarrow> bool \<Rightarrow> effect" where
  "pause_swaps c s pause =
     and_then (check_is_manager c s) (\<lambda>_.
     and_then (check_no_tez_transfer c) (\<lambda>_.
     Inr ([], s\<lparr> swaps_paused := pause \<rparr>)))"

definition pause_collects :: "ctx \<Rightarrow> storage \<Rightarrow> bool \<Rightarrow> effect" where
  "pause_collects c s pause =
     and_then (check_is_manager c s) (\<lambda>_.
     and_then (check_no_tez_transfer c) (\<lambda>_.
     Inr ([], s\<lparr> collects_paused := pause \<rparr>)))"

subsection \<open>Views\<close>

definition get_manager :: "storage \<Rightarrow> address" where
  "get_manager s = manager s"

definition is_allowed_fa2 :: "storage \<Rightarrow> address \<Rightarrow> bool" where
  "is_allowed_fa2 s a = get_default (allowed_fa2s s) a False"

definition has_swap :: "storage \<Rightarrow> nat \<Rightarrow> bool" where
  "has_swap s swap_id = (swaps s swap_id \<noteq> None)"

definition get_swap :: "storage \<Rightarrow> nat \<Rightarrow> swap_type result" where
  "get_swap s swap_id =
     and_then (verify (swaps s swap_id \<noteq> None) Swap_id_missing) (\<lambda>_.
     case swaps s swap_id of None \<Rightarrow> Inl Swap_id_missing | Some swp \<Rightarrow> Inr swp)"

definition get_swaps_counter :: "storage \<Rightarrow> nat" where
  "get_swaps_counter s = counter s"

definition get_fee :: "storage \<Rightarrow> nat" where
  "get_fee s = fee s"

definition get_fee_recipient :: "storage \<Rightarrow> address" where
  "get_fee_recipient s = fee_recipient s"

subsection \<open>Calls and runs\<close>

text \<open>A call of one entry point with its parameter.\<close>

datatype call =
    Swap_call swap_params
  | Collect_call nat
  | Cancel_swap_call nat
  | Update_fee_call nat
  | Update_fee_recipient_call address
  | Transfer_manager_call address
  | Accept_manager_call
  | Update_metadata_call string bytes
  | Add_fa2_call address
  | Remove_fa2_call address
  | Pause_swaps_call bool
  | Pause_collects_call bool

fun entry_point :: "env \<Rightarrow> ctx \<Rightarrow> storage \<Rightarrow> call \<Rightarrow> effect" where
  "entry_point e c s (Swap_call params) = swap e c s params"
| "entry_point e c s (Collect_call swap_id) = collect e c s swap_id"
| "entry_point e c s (Cancel_swap_call swap_id) = cancel_swap e c s swap_id"
| "entry_point e c s (Update_fee_call new_fee) = update_fee c s new_fee"
| "entry_point e c s (Update_fee_recipient_call a) = update_fee_recipient c s a"
| "entry_point e c s (Transfer_manager_call a) = transfer_manager c s a"
| "entry_point e c s Accept_manager_call = accept_manager c s"
| "entry_point e c s (Update_metadata_call k v) = update_metadata c s k v"
| "entry_point e c s (Add_fa2_call a) = add_fa2 c s a"
| "entry_point e c s (Remove_fa2_call a) = remove_fa2 c s a"
| "entry_point e c s (Pause_swaps_call pause) = pause_swaps c s pause"
| "entry_point e c s (Pause_collects_call pause) = pause_collects c s pause"

text \<open>
  The storage after a call: a call that fails is rolled back by the chain and leaves the
  storage as it was; a call that succeeds commits the storage it computed. (A call whose
  emitted operations fail later is rolled back in the same way, so a run lists the calls
  whose operations went through, and those that failed in the entry point.)
\<close>

definition succeeds :: "env \<Rightarrow> storage \<Rightarrow> ctx \<times> call \<Rightarrow> bool" where
  "succeeds e s cc = (case entry_point e (fst cc) s (snd cc) of Inl _ \<Rightarrow> False | Inr _ \<Rightarrow> True)"

definition step :: "env \<Rightarrow> storage \<Rightarrow> ctx \<times> call \<Rightarrow> storage" where
  "step e s cc = (case entry_point e (fst cc) s (snd cc) of Inl _ \<Rightarrow> s | Inr r \<Rightarrow> snd r)"

text \<open>The operations a call leaves behind: none when it fails.\<close>

definition emitted :: "env \<Rightarrow> storage \<Rightarrow> ctx \<times> call \<Rightarrow> operation list" where
  "emitted e s cc = (case entry_point e (fst cc) s (snd cc) of Inl _ \<Rightarrow> [] | Inr r \<Rightarrow> fst r)"

fun run :: "env \<Rightarrow> storage \<Rightarrow> (ctx \<times> call) list \<Rightarrow> storage" where
  "run e s [] = s"
| "run e s (cc # ccs) = run e (step e s cc) ccs"

text \<open>The keys at which the successful \<^verbatim>\<open>swap\<close> calls of a run store their records, in order.\<close>

fun is_swap :: "call \<Rightarrow> bool" where
  "is_swap (Swap_call _) = True"
| "is_swap _ = False"

fun assigned_ids :: "env \<Rightarrow> storage \<Rightarrow> (ctx \<times> call) list \<Rightarrow> nat list" where
  "assigned_ids e s [] = []"
| "assigned_ids e s (cc # ccs) =
     (if is_swap (snd cc) \<and> succeeds e s cc then [counter s] else [])
       @ assigned_ids e (step e s cc) ccs"

text \<open>How many calls of a run are successful calls of the given entry point call.\<close>

fun successes :: "call \<Rightarrow> env \<Rightarrow> storage \<Rightarrow> (ctx \<times> call) list \<Rightarrow> nat" where
  "successes k e s [] = 0"
| "successes k e s (cc # ccs) =
     (if snd cc = k \<and> succeeds e s cc then 1 else 0) + successes k e (step e s cc) ccs"

text \<open>The total of the tez an operation list pays out.\<close>

fun paid :: "operation list \<Rightarrow> nat" where
  "paid [] = 0"
| "paid (Send _ a # ops) = a + paid ops"
| "paid (Transfer _ a _ # ops) = a + paid ops"

subsection \<open>The specification's vocabulary\<close>

text \<open>
  The error taxonomy of the specification (section 7), as a classification of the
  failures of the source. The specification does not classify the failures of the
  arithmetic primitives.
\<close>

datatype error_class = AuthorizationError | StateError | ValidationError | ExternalCallError

fun classify :: "error \<Rightarrow> error_class option" where
  "classify Not_manager = Some AuthorizationError"
| "classify Not_swap_issuer = Some AuthorizationError"
| "classify Collector_is_issuer = Some AuthorizationError"
| "classify Not_proposed_manager = Some AuthorizationError"
| "classify Swaps_are_paused = Some StateError"
| "classify Collects_are_paused = Some StateError"
| "classify Swap_id_missing = Some StateError"
| "classify Already_collected = Some StateError"
| "classify All_collected = Some StateError"
| "classify No_proposed_manager = Some StateError"
| "classify No_edition_swapped = Some ValidationError"
| "classify Royalties_too_high = Some ValidationError"
| "classify Fee_too_high = Some ValidationError"
| "classify Tez_transferred = Some ValidationError"
| "classify Wrong_tez_amount = Some ValidationError"
| "classify Token_not_allowed = Some ValidationError"
| "classify No_transfer_entry_point = Some ExternalCallError"
| "classify No_unit_entry_point = Some ExternalCallError"
| "classify Mutez_overflow = None"
| "classify Mutez_underflow = None"
| "classify Division_by_zero = None"
| "classify Negative_as_nat = None"

text \<open>
  The five preconditions of \<^verbatim>\<open>collect\<close> as the specification lists them (section 4.4):
  collects not paused, the swap id exists, the caller is not the issuer, the payment is
  exactly the price, and an edition remains.
\<close>

definition collect_preconditions :: "ctx \<Rightarrow> storage \<Rightarrow> nat \<Rightarrow> bool" where
  "collect_preconditions c s swap_id =
     (\<not> collects_paused s \<and>
      (case swaps s swap_id of
         None \<Rightarrow> False
       | Some swp \<Rightarrow> sender c \<noteq> issuer swp \<and> amount c = xtz_per_objkt swp \<and> 0 < objkt_amount swp))"

text \<open>The payment split of the specification (section 4.5).\<close>

definition royaltyAmount :: "nat \<Rightarrow> nat \<Rightarrow> nat" where
  "royaltyAmount P r = P * r div 1000"

definition feeAmount :: "nat \<Rightarrow> nat \<Rightarrow> nat" where
  "feeAmount P f = P * f div 1000"

definition issuerAmount :: "nat \<Rightarrow> nat \<Rightarrow> nat \<Rightarrow> int" where
  "issuerAmount P r f = int P - int (royaltyAmount P r) - int (feeAmount P f)"

subsection \<open>A sample deployment\<close>

text \<open>
  The marketplace at \<open>KT1market\<close>, deployed by \<open>tz1manager\<close> with a fee of 25 and one
  allowed token contract; Alice swaps two editions of token 7 at 1000 mutez each, with
  royalties of 100 for the artist, and Bob collects them.
\<close>

definition sample_env :: env where
  "sample_env = \<lparr> self_address = ''KT1market'', transfer_entry = (\<lambda>a. a = ''KT1objkt''),
                  unit_entry = (\<lambda>a. True) \<rparr>"

definition sample_init :: storage where
  "sample_init = init ''tz1manager'' Map.empty [''KT1objkt'' \<mapsto> True] 25"

definition sample_params :: swap_params where
  "sample_params = \<lparr> fa2 = ''KT1objkt'', objkt_id = 7, objkt_amount = 2, xtz_per_objkt = 1000,
                     royalties = 100, creator = ''tz1artist'' \<rparr>"

definition sample_swap :: swap_type where
  "sample_swap = \<lparr> fa2 = ''KT1objkt'', objkt_id = 7, objkt_amount = 2, xtz_per_objkt = 1000,
                   royalties = 100, creator = ''tz1artist'', issuer = ''tz1alice'' \<rparr>"

definition alice :: ctx where
  "alice = \<lparr> sender = ''tz1alice'', amount = 0 \<rparr>"

definition bob :: ctx where
  "bob = \<lparr> sender = ''tz1bob'', amount = 1000 \<rparr>"

definition the_manager :: ctx where
  "the_manager = \<lparr> sender = ''tz1manager'', amount = 0 \<rparr>"

definition sample_open :: storage where
  "sample_open = run sample_env sample_init [(alice, Swap_call sample_params)]"

definition sample_exhausted :: storage where
  "sample_exhausted = run sample_env sample_open [(bob, Collect_call 0), (bob, Collect_call 0)]"

definition alice_pays :: ctx where
  "alice_pays = \<lparr> sender = ''tz1alice'', amount = 1000 \<rparr>"

definition bob_free :: ctx where
  "bob_free = \<lparr> sender = ''tz1bob'', amount = 0 \<rparr>"

text \<open>The manager has proposed Bob as the next manager.\<close>

definition sample_proposed :: storage where
  "sample_proposed = run sample_env sample_init [(the_manager, Transfer_manager_call ''tz1bob'')]"

text \<open>Alice has cancelled her swap; the calls of a run that swaps, cancels and swaps again; the
  record of her swap once both editions are collected.\<close>

definition sample_cancelled :: storage where
  "sample_cancelled = run sample_env sample_open [(alice, Cancel_swap_call 0)]"

definition sample_calls :: "(ctx \<times> call) list" where
  "sample_calls = [(alice, Swap_call sample_params), (alice, Cancel_swap_call 0),
                   (alice, Swap_call sample_params)]"

definition sample_sold_out :: swap_type where
  "sample_sold_out = \<lparr> fa2 = ''KT1objkt'', objkt_id = 7, objkt_amount = 0, xtz_per_objkt = 1000,
                   royalties = 100, creator = ''tz1artist'', issuer = ''tz1alice'' \<rparr>"

subsection \<open>The invariant of the swaps\<close>

text \<open>
  Every record of the swaps big map sits below the counter, names a token contract that
  has the transfer entry point, and has royalties of at most 250: what \<^verbatim>\<open>swap\<close> checked
  when it stored the record.
\<close>

definition well_formed :: "env \<Rightarrow> storage \<Rightarrow> bool" where
  "well_formed e s =
     (\<forall>k swp. swaps s k = Some swp \<longrightarrow>
        k < counter s \<and> transfer_entry e (fa2 swp) \<and> royalties swp \<le> 250)"

text \<open>The entry points that write the swaps big map or the counter.\<close>

fun touches_swaps :: "call \<Rightarrow> bool" where
  "touches_swaps (Swap_call _) = True"
| "touches_swaps (Collect_call _) = True"
| "touches_swaps (Cancel_swap_call _) = True"
| "touches_swaps _ = False"

lemmas prim_defs = and_then_def verify_def check_is_manager_def check_no_tez_transfer_def
  fa2_transfer_def send_def split_tokens_def sub_mutez_def as_nat_def get_default_def

lemmas run_defs = step_def succeeds_def emitted_def swap_def collect_def collect_payments_def
  cancel_swap_def prim_defs max_mutez_def

lemmas sample_defs = sample_env_def sample_init_def sample_params_def sample_swap_def
  alice_def bob_def the_manager_def sample_open_def sample_exhausted_def init_def
  alice_pays_def bob_free_def sample_proposed_def sample_cancelled_def sample_calls_def

section \<open>Properties\<close>

subsection \<open>Calls that succeed\<close>

lemma succeeds_entry_point:
  "succeeds e s cc \<Longrightarrow> entry_point e (fst cc) s (snd cc) = Inr (emitted e s cc, step e s cc)"
  by (simp add: succeeds_def emitted_def step_def split: sum.splits)

lemma paid_append: "paid (xs @ ys) = paid xs + paid ys"
  by (induction xs rule: paid.induct) auto

lemma nat_int_pred: "nat (int n - 1) = n - 1"
  by simp

subsection \<open>The payment split of collect\<close>

lemma collect_payments_amounts:
  assumes "collect_payments e c s swp = Inr pay" and "amount c = xtz_per_objkt swp"
    and "xtz_per_objkt swp \<noteq> 0"
  shows "pay =
            (if 0 < royaltyAmount (xtz_per_objkt swp) (royalties swp)
             then [Send (creator swp) (royaltyAmount (xtz_per_objkt swp) (royalties swp))] else []) @
            (if 0 < feeAmount (xtz_per_objkt swp) (fee s)
             then [Send (fee_recipient s) (feeAmount (xtz_per_objkt swp) (fee s))] else []) @
            [Send (issuer swp) (xtz_per_objkt swp - royaltyAmount (xtz_per_objkt swp) (royalties swp)
                                  - feeAmount (xtz_per_objkt swp) (fee s))]"
    and "royaltyAmount (xtz_per_objkt swp) (royalties swp)
           + feeAmount (xtz_per_objkt swp) (fee s) \<le> xtz_per_objkt swp"
  using assms
  by (auto simp: collect_payments_def prim_defs royaltyAmount_def feeAmount_def
        split: if_splits sum.splits)

lemma issuerAmount_nat:
  "royaltyAmount P r + feeAmount P f \<le> P \<Longrightarrow>
     issuerAmount P r f = int (P - royaltyAmount P r - feeAmount P f)"
  by (simp add: issuerAmount_def)

lemma collect_payments_free: "xtz_per_objkt swp = 0 \<Longrightarrow> collect_payments e c s swp = Inr []"
  by (simp add: collect_payments_def)

lemma collect_payments_Inr:
  assumes "collect_payments e c s swp = Inr pay" and "amount c = xtz_per_objkt swp"
  shows "pay = (if xtz_per_objkt swp = 0 then [] else
            (if 0 < royaltyAmount (xtz_per_objkt swp) (royalties swp)
             then [Send (creator swp) (royaltyAmount (xtz_per_objkt swp) (royalties swp))] else []) @
            (if 0 < feeAmount (xtz_per_objkt swp) (fee s)
             then [Send (fee_recipient s) (feeAmount (xtz_per_objkt swp) (fee s))] else []) @
            [Send (issuer swp) (nat (issuerAmount (xtz_per_objkt swp) (royalties swp) (fee s)))])"
    and "0 \<le> issuerAmount (xtz_per_objkt swp) (royalties swp) (fee s)"
proof -
  show "0 \<le> issuerAmount (xtz_per_objkt swp) (royalties swp) (fee s)"
  proof (cases "xtz_per_objkt swp = 0")
    case True
    then show ?thesis by (simp add: issuerAmount_def royaltyAmount_def feeAmount_def)
  next
    case False
    from collect_payments_amounts(2) [OF assms False] show ?thesis
      by (simp add: issuerAmount_nat)
  qed
  show "pay = (if xtz_per_objkt swp = 0 then [] else
            (if 0 < royaltyAmount (xtz_per_objkt swp) (royalties swp)
             then [Send (creator swp) (royaltyAmount (xtz_per_objkt swp) (royalties swp))] else []) @
            (if 0 < feeAmount (xtz_per_objkt swp) (fee s)
             then [Send (fee_recipient s) (feeAmount (xtz_per_objkt swp) (fee s))] else []) @
            [Send (issuer swp) (nat (issuerAmount (xtz_per_objkt swp) (royalties swp) (fee s)))])"
  proof (cases "xtz_per_objkt swp = 0")
    case True
    with assms(1) show ?thesis by (simp add: collect_payments_free)
  next
    case False
    from collect_payments_amounts [OF assms False] False show ?thesis
      by (simp add: issuerAmount_nat)
  qed
qed

text \<open>What a successful \<^verbatim>\<open>collect\<close> has checked, emitted and written.\<close>

lemma collect_Inr:
  assumes "collect e c s swap_id = Inr (ops, s')"
  shows "\<exists>swp pay. swaps s swap_id = Some swp \<and> \<not> collects_paused s \<and> sender c \<noteq> issuer swp \<and>
     amount c = xtz_per_objkt swp \<and> 0 < objkt_amount swp \<and>
     collect_payments e c s swp = Inr pay \<and> transfer_entry e (fa2 swp) \<and>
     ops = pay @ [Transfer [Transfer_item (self_address e) [Tx (sender c) (objkt_id swp) 1]] 0 (fa2 swp)] \<and>
     s' = s\<lparr> swaps := (swaps s)(swap_id \<mapsto> swp\<lparr> objkt_amount := objkt_amount swp - 1 \<rparr>) \<rparr>"
  using assms
  by (auto simp: collect_def and_then_def verify_def fa2_transfer_def as_nat_def nat_int_pred
        simp del: One_nat_def split: if_splits sum.splits option.splits)

lemma sample_open_swap: "swaps sample_open 0 = Some sample_swap"
  by (simp add: sample_defs step_def swap_def prim_defs)

lemma sample_open_collect:
  "emitted sample_env sample_open (bob, Collect_call 0) =
     [Send ''tz1artist'' 100, Send ''tz1manager'' 25, Send ''tz1alice'' 875,
      Transfer [Transfer_item ''KT1market'' [Tx ''tz1bob'' 7 1]] 0 ''KT1objkt'']"
  "succeeds sample_env sample_open (bob, Collect_call 0)"
  by (simp_all add: sample_defs step_def emitted_def succeeds_def swap_def collect_def
        collect_payments_def prim_defs max_mutez_def)

text \<open>
  C1. A successful \<^verbatim>\<open>collect\<close> on a swap with price \<open>P\<close>, royalties \<open>r\<close>, under the
  fee \<open>f\<close>, pays \<open>floor (P * r / 1000)\<close> to the creator and \<open>floor (P * f / 1000)\<close> to the
  fee recipient (each only when it is positive), and \<open>P\<close> minus these two to the issuer,
  before it transfers the edition; the issuer's amount is not negative, the three add up
  to \<open>P\<close>, and the tez the call pays out are exactly \<open>P\<close>. With a price of zero nothing
  is paid and the three amounts are zero.
\<close>

theorem collect_conserves_payment:
  assumes "collect e c s swap_id = Inr (ops, s')" and "swaps s swap_id = Some swp"
  shows "ops =
          (if xtz_per_objkt swp = 0 then [] else
            (if 0 < royaltyAmount (xtz_per_objkt swp) (royalties swp)
             then [Send (creator swp) (royaltyAmount (xtz_per_objkt swp) (royalties swp))] else []) @
            (if 0 < feeAmount (xtz_per_objkt swp) (fee s)
             then [Send (fee_recipient s) (feeAmount (xtz_per_objkt swp) (fee s))] else []) @
            [Send (issuer swp) (nat (issuerAmount (xtz_per_objkt swp) (royalties swp) (fee s)))])
          @ [Transfer [Transfer_item (self_address e) [Tx (sender c) (objkt_id swp) 1]] 0 (fa2 swp)]
        \<and> 0 \<le> issuerAmount (xtz_per_objkt swp) (royalties swp) (fee s)
        \<and> int (royaltyAmount (xtz_per_objkt swp) (royalties swp))
            + int (feeAmount (xtz_per_objkt swp) (fee s))
            + issuerAmount (xtz_per_objkt swp) (royalties swp) (fee s) = int (xtz_per_objkt swp)
        \<and> paid ops = xtz_per_objkt swp"
proof -
  from collect_Inr [OF assms(1)] assms(2) obtain pay where
    amt: "amount c = xtz_per_objkt swp" and
    pay: "collect_payments e c s swp = Inr pay" and
    ops: "ops = pay @ [Transfer [Transfer_item (self_address e) [Tx (sender c) (objkt_id swp) 1]] 0 (fa2 swp)]"
    by auto
  note p = collect_payments_Inr [OF pay amt]
  have sum: "int (royaltyAmount (xtz_per_objkt swp) (royalties swp))
            + int (feeAmount (xtz_per_objkt swp) (fee s))
            + issuerAmount (xtz_per_objkt swp) (royalties swp) (fee s) = int (xtz_per_objkt swp)"
    by (simp add: issuerAmount_def)
  have "paid pay = xtz_per_objkt swp"
    using p(2) sum unfolding p(1) by (auto simp: paid_append)
  then have "paid ops = xtz_per_objkt swp"
    by (simp add: ops paid_append)
  with p sum ops show ?thesis by simp
qed

theorem collect_conserves_payment_witness:
  "collect sample_env bob sample_open 0
     = Inr (emitted sample_env sample_open (bob, Collect_call 0), step sample_env sample_open (bob, Collect_call 0))
   \<and> swaps sample_open 0 = Some sample_swap
   \<and> emitted sample_env sample_open (bob, Collect_call 0) =
       [Send ''tz1artist'' 100, Send ''tz1manager'' 25, Send ''tz1alice'' 875,
        Transfer [Transfer_item ''KT1market'' [Tx ''tz1bob'' 7 1]] 0 ''KT1objkt'']
   \<and> royaltyAmount 1000 100 = 100 \<and> feeAmount 1000 25 = 25 \<and> issuerAmount 1000 100 25 = 875
   \<and> paid (emitted sample_env sample_open (bob, Collect_call 0)) = 1000"
proof -
  have h1: "collect sample_env bob sample_open 0
     = Inr (emitted sample_env sample_open (bob, Collect_call 0), step sample_env sample_open (bob, Collect_call 0))"
    using succeeds_entry_point [OF sample_open_collect(2)] by simp
  have h2: "swaps sample_open 0 = Some sample_swap"
    by (rule sample_open_swap)
  have "paid (emitted sample_env sample_open (bob, Collect_call 0)) = xtz_per_objkt sample_swap"
    using collect_conserves_payment [OF h1 h2] by blast
  then show ?thesis
    using h1 h2 sample_open_collect(1)
    by (simp add: sample_swap_def royaltyAmount_def feeAmount_def issuerAmount_def)
qed

subsection \<open>The issuer's share\<close>

lemma rate_quarter: "r \<le> 250 \<Longrightarrow> P * r div 1000 \<le> P div (4::nat)"
proof -
  assume "r \<le> 250"
  then have "P * r \<le> P * 250" by simp
  then have "P * r div 1000 \<le> P * 250 div 1000" by (rule div_le_mono)
  also have "P * 250 div 1000 = P div 4" by simp
  finally show ?thesis .
qed

lemma shares_below_price:
  assumes "0 < P" "r \<le> 250" "f \<le> 250"
  shows "royaltyAmount P r + feeAmount P f < P"
proof -
  have "royaltyAmount P r \<le> P div 4" "feeAmount P f \<le> P div 4"
    using assms by (simp_all add: royaltyAmount_def feeAmount_def rate_quarter)
  then have "royaltyAmount P r + feeAmount P f \<le> P div 4 + P div 4" by simp
  also have "\<dots> < P" using assms(1) by simp
  finally show ?thesis .
qed

lemma sub_mutez_twice:
  "a + b \<le> P \<Longrightarrow> and_then (sub_mutez P a) (\<lambda>rest. sub_mutez rest b) = Inr (P - a - b)"
  by (simp add: and_then_def sub_mutez_def)

text \<open>
  C10. For a price \<open>P > 0\<close> and rates \<open>r \<le> 250\<close> and \<open>f \<le> 250\<close> the issuer's share
  \<open>P - floor (P * r / 1000) - floor (P * f / 1000)\<close> is strictly positive; the two
  subtractions on mutez that compute it do not fail; and a successful \<^verbatim>\<open>collect\<close> on a
  swap with this price and these rates sends that share, a nonzero amount, to the issuer.
\<close>

theorem issuer_share_positive:
  assumes "0 < P" and "r \<le> 250" and "f \<le> 250"
  shows "0 < issuerAmount P r f
       \<and> and_then (sub_mutez P (royaltyAmount P r)) (\<lambda>rest. sub_mutez rest (feeAmount P f))
           = Inr (nat (issuerAmount P r f))
       \<and> (collect e c s swap_id = Inr (ops, s') \<and> swaps s swap_id = Some swp \<and>
            xtz_per_objkt swp = P \<and> royalties swp = r \<and> fee s = f \<longrightarrow>
            Send (issuer swp) (nat (issuerAmount P r f)) \<in> set ops \<and> 0 < nat (issuerAmount P r f))"
proof -
  note lt = shares_below_price [OF assms]
  then have le: "royaltyAmount P r + feeAmount P f \<le> P" by simp
  have pos: "0 < issuerAmount P r f"
    using lt by (simp add: issuerAmount_nat [OF le])
  have sub: "and_then (sub_mutez P (royaltyAmount P r)) (\<lambda>rest. sub_mutez rest (feeAmount P f))
           = Inr (nat (issuerAmount P r f))"
    by (simp add: sub_mutez_twice [OF le] issuerAmount_nat [OF le])
  have col: "Send (issuer swp) (nat (issuerAmount P r f)) \<in> set ops \<and> 0 < nat (issuerAmount P r f)"
    if "collect e c s swap_id = Inr (ops, s')" "swaps s swap_id = Some swp"
      "xtz_per_objkt swp = P" "royalties swp = r" "fee s = f"
  proof -
    from collect_Inr [OF that(1)] that(2) obtain pay where
      amt: "amount c = xtz_per_objkt swp" and
      pay: "collect_payments e c s swp = Inr pay" and
      ops: "ops = pay @ [Transfer [Transfer_item (self_address e) [Tx (sender c) (objkt_id swp) 1]] 0 (fa2 swp)]"
      by auto
    have "xtz_per_objkt swp \<noteq> 0" using that(3) assms(1) by simp
    from collect_payments_Inr(1) [OF pay amt] this that(3-5)
    have "Send (issuer swp) (nat (issuerAmount P r f)) \<in> set pay" by simp
    with ops pos show ?thesis by simp
  qed
  from pos sub col show ?thesis by blast
qed

theorem issuer_share_positive_witness:
  "(0::nat) < 1000 \<and> (100::nat) \<le> 250 \<and> (25::nat) \<le> 250
   \<and> issuerAmount 1000 100 25 = 875
   \<and> and_then (sub_mutez 1000 (royaltyAmount 1000 100)) (\<lambda>rest. sub_mutez rest (feeAmount 1000 25))
       = Inr 875
   \<and> collect sample_env bob sample_open 0
       = Inr (emitted sample_env sample_open (bob, Collect_call 0),
              step sample_env sample_open (bob, Collect_call 0))
   \<and> swaps sample_open 0 = Some sample_swap
   \<and> xtz_per_objkt sample_swap = 1000 \<and> royalties sample_swap = 100 \<and> fee sample_open = 25
   \<and> Send ''tz1alice'' 875 \<in> set (emitted sample_env sample_open (bob, Collect_call 0))"
proof -
  have h: "(0::nat) < 1000" "(100::nat) \<le> 250" "(25::nat) \<le> 250"
    by simp_all
  have v: "issuerAmount 1000 100 25 = 875"
    by (simp add: issuerAmount_def royaltyAmount_def feeAmount_def)
  have c1: "collect sample_env bob sample_open 0
       = Inr (emitted sample_env sample_open (bob, Collect_call 0),
              step sample_env sample_open (bob, Collect_call 0))"
    using succeeds_entry_point [OF sample_open_collect(2)] by simp
  have c2: "swaps sample_open 0 = Some sample_swap"
    by (rule sample_open_swap)
  have c3: "xtz_per_objkt sample_swap = 1000" "royalties sample_swap = 100" "fee sample_open = 25"
    "issuer sample_swap = ''tz1alice''"
    by (simp_all add: sample_defs step_def swap_def prim_defs)
  note t = issuer_share_positive [OF h, of sample_env bob sample_open 0
      "emitted sample_env sample_open (bob, Collect_call 0)"
      "step sample_env sample_open (bob, Collect_call 0)" sample_swap]
  from t have "and_then (sub_mutez 1000 (royaltyAmount 1000 100))
                 (\<lambda>rest. sub_mutez rest (feeAmount 1000 25)) = Inr (nat (issuerAmount 1000 100 25))"
    by blast
  then have s: "and_then (sub_mutez 1000 (royaltyAmount 1000 100))
                 (\<lambda>rest. sub_mutez rest (feeAmount 1000 25)) = Inr 875"
    by (simp add: v)
  from t c1 c2 c3
  have "Send (issuer sample_swap) (nat (issuerAmount 1000 100 25))
          \<in> set (emitted sample_env sample_open (bob, Collect_call 0))"
    by blast
  then have m: "Send ''tz1alice'' 875 \<in> set (emitted sample_env sample_open (bob, Collect_call 0))"
    by (simp add: v c3)
  from h v s c1 c2 c3 m show ?thesis by blast
qed

subsection \<open>The preconditions of collect\<close>

text \<open>
  C4. \<^verbatim>\<open>collect\<close> succeeds only when the five preconditions hold: collects are not
  paused, the swap id exists, the caller is not the issuer, the payment equals the price
  exactly, and an edition remains. When one of them fails the call fails with the message
  of the first failing check, emits nothing and leaves the storage as it was.
\<close>

theorem collect_needs_preconditions:
  "(succeeds e s (c, Collect_call swap_id) \<longrightarrow> collect_preconditions c s swap_id) \<and>
   (\<not> collect_preconditions c s swap_id \<longrightarrow>
      collect e c s swap_id =
        Inl (if collects_paused s then Collects_are_paused
             else case swaps s swap_id of
                    None \<Rightarrow> Swap_id_missing
                  | Some swp \<Rightarrow>
                      if sender c = issuer swp then Collector_is_issuer
                      else if amount c \<noteq> xtz_per_objkt swp then Wrong_tez_amount
                      else Already_collected) \<and>
      step e s (c, Collect_call swap_id) = s \<and>
      emitted e s (c, Collect_call swap_id) = [])"
proof -
  have fails: "collect e c s swap_id =
        Inl (if collects_paused s then Collects_are_paused
             else case swaps s swap_id of
                    None \<Rightarrow> Swap_id_missing
                  | Some swp \<Rightarrow>
                      if sender c = issuer swp then Collector_is_issuer
                      else if amount c \<noteq> xtz_per_objkt swp then Wrong_tez_amount
                      else Already_collected)"
    if "\<not> collect_preconditions c s swap_id"
    using that
    by (auto simp: collect_preconditions_def collect_def and_then_def verify_def split: option.splits)
  then have "\<not> collect_preconditions c s swap_id \<Longrightarrow> \<not> succeeds e s (c, Collect_call swap_id)"
    by (simp add: succeeds_def)
  moreover have "\<not> collect_preconditions c s swap_id \<Longrightarrow> step e s (c, Collect_call swap_id) = s"
    using fails by (simp add: step_def)
  moreover have "\<not> collect_preconditions c s swap_id \<Longrightarrow> emitted e s (c, Collect_call swap_id) = []"
    using fails by (simp add: emitted_def)
  ultimately show ?thesis using fails by blast
qed

theorem collect_needs_preconditions_witness:
  "succeeds sample_env sample_open (bob, Collect_call 0)
   \<and> collect_preconditions bob sample_open 0
   \<and> \<not> collect_preconditions alice_pays sample_open 0
   \<and> collect sample_env alice_pays sample_open 0 = Inl Collector_is_issuer
   \<and> step sample_env sample_open (alice_pays, Collect_call 0) = sample_open
   \<and> emitted sample_env sample_open (alice_pays, Collect_call 0) = []"
proof -
  have a: "succeeds sample_env sample_open (bob, Collect_call 0)"
    by (rule sample_open_collect(2))
  have i: "issuer sample_swap = sender alice_pays" "\<not> collects_paused sample_open"
    by (simp_all add: sample_defs step_def swap_def prim_defs)
  then have b: "\<not> collect_preconditions alice_pays sample_open 0"
    by (simp add: collect_preconditions_def sample_open_swap)
  from collect_needs_preconditions [of sample_env sample_open bob 0] a
  have p: "collect_preconditions bob sample_open 0" by blast
  from collect_needs_preconditions [of sample_env sample_open alice_pays 0] b
  have q: "collect sample_env alice_pays sample_open 0 =
        Inl (if collects_paused sample_open then Collects_are_paused
             else case swaps sample_open 0 of
                    None \<Rightarrow> Swap_id_missing
                  | Some swp \<Rightarrow>
                      if sender alice_pays = issuer swp then Collector_is_issuer
                      else if amount alice_pays \<noteq> xtz_per_objkt swp then Wrong_tez_amount
                      else Already_collected)"
    and r: "step sample_env sample_open (alice_pays, Collect_call 0) = sample_open"
    and t: "emitted sample_env sample_open (alice_pays, Collect_call 0) = []"
    by blast+
  from q i have "collect sample_env alice_pays sample_open 0 = Inl Collector_is_issuer"
    by (simp add: sample_open_swap)
  with a b p r t show ?thesis by blast
qed

subsection \<open>The handover of the manager\<close>

text \<open>
  C7, as the claim states it, fails: Bob is the proposed manager and calls
  \<^verbatim>\<open>accept_manager\<close> with 1000 mutez attached; the call fails.
\<close>

theorem accept_manager_with_payment_fails:
  "proposed_manager sample_proposed = Some (sender bob) \<and>
   accept_manager bob sample_proposed = Inl Tez_transferred"
  by (simp add: sample_defs step_def transfer_manager_def accept_manager_def prim_defs)

text \<open>
  C7, amended. \<^verbatim>\<open>transfer_manager\<close> succeeds exactly when the manager calls it with no
  tez attached, and then sets the proposed manager to the candidate, whatever was proposed
  before. \<^verbatim>\<open>accept_manager\<close> succeeds exactly when a manager is proposed, the caller is
  the proposed manager and no tez are attached; it then makes the caller the manager and
  clears the proposal. When a manager is proposed and the caller is someone else, the call
  fails with an authorization error.
\<close>

theorem manager_handover:
  "(succeeds e s (c, Transfer_manager_call a) \<longleftrightarrow> sender c = manager s \<and> amount c = 0) \<and>
   (sender c = manager s \<and> amount c = 0 \<longrightarrow>
      transfer_manager c s a = Inr ([], s\<lparr> proposed_manager := Some a \<rparr>)) \<and>
   (succeeds e s (c, Accept_manager_call) \<longleftrightarrow> proposed_manager s = Some (sender c) \<and> amount c = 0) \<and>
   (proposed_manager s = Some (sender c) \<and> amount c = 0 \<longrightarrow>
      accept_manager c s = Inr ([], s\<lparr> manager := sender c, proposed_manager := None \<rparr>)) \<and>
   (proposed_manager s \<noteq> None \<and> proposed_manager s \<noteq> Some (sender c) \<longrightarrow>
      accept_manager c s = Inl Not_proposed_manager \<and>
      classify Not_proposed_manager = Some AuthorizationError)"
  by (auto simp: succeeds_def transfer_manager_def accept_manager_def prim_defs)

theorem manager_handover_witness:
  "sender the_manager = manager sample_init \<and> amount the_manager = 0 \<and>
   succeeds sample_env sample_init (the_manager, Transfer_manager_call ''tz1bob'') \<and>
   proposed_manager sample_proposed = Some (sender bob_free) \<and> amount bob_free = 0 \<and>
   succeeds sample_env sample_proposed (bob_free, Accept_manager_call) \<and>
   manager (step sample_env sample_proposed (bob_free, Accept_manager_call)) = ''tz1bob'' \<and>
   proposed_manager (step sample_env sample_proposed (bob_free, Accept_manager_call)) = None \<and>
   proposed_manager sample_proposed \<noteq> None \<and> proposed_manager sample_proposed \<noteq> Some (sender alice) \<and>
   accept_manager alice sample_proposed = Inl Not_proposed_manager"
proof -
  have m: "sender the_manager = manager sample_init \<and> amount the_manager = 0"
    by (simp add: sample_defs)
  have p: "proposed_manager sample_proposed = Some (sender bob_free) \<and> amount bob_free = 0"
    by (simp add: sample_defs step_def transfer_manager_def prim_defs)
  have q: "proposed_manager sample_proposed \<noteq> None \<and> proposed_manager sample_proposed \<noteq> Some (sender alice)"
    using p by (simp add: bob_free_def alice_def)
  note t1 = manager_handover [of sample_env sample_init the_manager "''tz1bob''"]
  note t2 = manager_handover [of sample_env sample_proposed bob_free "''tz1bob''"]
  note t3 = manager_handover [of sample_env sample_proposed alice "''tz1bob''"]
  have a: "succeeds sample_env sample_init (the_manager, Transfer_manager_call ''tz1bob'')"
    using t1 m by blast
  have b: "succeeds sample_env sample_proposed (bob_free, Accept_manager_call)"
    using t2 p by blast
  have c: "accept_manager bob_free sample_proposed
             = Inr ([], sample_proposed\<lparr> manager := sender bob_free, proposed_manager := None \<rparr>)"
    using t2 p by blast
  have d: "accept_manager alice sample_proposed = Inl Not_proposed_manager"
    using t3 q by blast
  have e: "manager (step sample_env sample_proposed (bob_free, Accept_manager_call)) = ''tz1bob'' \<and>
   proposed_manager (step sample_env sample_proposed (bob_free, Accept_manager_call)) = None"
    using c by (simp add: step_def bob_free_def)
  from m p q a b d e show ?thesis by blast
qed

subsection \<open>What the entry points write\<close>

lemma swap_Inr:
  assumes "swap e c s p = Inr (ops, s')"
  shows "\<not> swaps_paused s \<and> amount c = 0 \<and> allowed_fa2s s (fa2 p) = Some True \<and>
     0 < objkt_amount p \<and> royalties p \<le> 250 \<and> transfer_entry e (fa2 p) \<and>
     ops = [Transfer [Transfer_item (sender c) [Tx (self_address e) (objkt_id p) (objkt_amount p)]] 0 (fa2 p)] \<and>
     s' = s\<lparr> swaps := (swaps s)(counter s \<mapsto>
                 \<lparr> fa2 = fa2 p, objkt_id = objkt_id p, objkt_amount = objkt_amount p,
                   xtz_per_objkt = xtz_per_objkt p, royalties = royalties p,
                   creator = creator p, issuer = sender c \<rparr>),
             counter := counter s + 1 \<rparr>"
  using assms
  by (auto simp: swap_def prim_defs split: if_splits option.splits)

lemma cancel_swap_Inr:
  assumes "cancel_swap e c s swap_id = Inr (ops, s')"
  shows "\<exists>swp. swaps s swap_id = Some swp \<and> amount c = 0 \<and> sender c = issuer swp \<and>
     0 < objkt_amount swp \<and> transfer_entry e (fa2 swp) \<and>
     ops = [Transfer [Transfer_item (self_address e) [Tx (sender c) (objkt_id swp) (objkt_amount swp)]] 0 (fa2 swp)] \<and>
     s' = s\<lparr> swaps := (swaps s)(swap_id := None) \<rparr>"
  using assms
  by (auto simp: cancel_swap_def prim_defs split: if_splits option.splits)

lemma admin_frame:
  assumes "entry_point e c s k = Inr (ops, s')" and "\<not> touches_swaps k"
  shows "swaps s' = swaps s \<and> counter s' = counter s \<and> ops = []"
  using assms
  by (cases k)
     (auto simp: update_fee_def update_fee_recipient_def transfer_manager_def accept_manager_def
        update_metadata_def add_fa2_def remove_fa2_def pause_swaps_def pause_collects_def
        prim_defs split: if_splits)

lemma step_cases:
  obtains (fail) "\<not> succeeds e s cc" "step e s cc = s"
  | (ok) ops where "succeeds e s cc" "entry_point e (fst cc) s (snd cc) = Inr (ops, step e s cc)"
  by (cases "entry_point e (fst cc) s (snd cc)") (auto simp: succeeds_def step_def)

lemma well_formed_init: "well_formed e (init mgr md al f)"
  by (simp add: well_formed_def init_def)

lemma well_formed_step:
  assumes "well_formed e s"
  shows "well_formed e (step e s cc)"
proof (cases rule: step_cases [of e s cc])
  case fail
  with assms show ?thesis by simp
next
  case (ok ops)
  show ?thesis
  proof (cases "snd cc")
    case (Swap_call p)
    with ok(2) have "swap e (fst cc) s p = Inr (ops, step e s cc)" by simp
    from swap_Inr [OF this] assms show ?thesis
      by (auto simp: well_formed_def less_Suc_eq split: if_splits)
  next
    case (Collect_call k)
    with ok(2) have "collect e (fst cc) s k = Inr (ops, step e s cc)" by simp
    from collect_Inr [OF this] assms show ?thesis
      by (auto simp: well_formed_def split: if_splits)
  next
    case (Cancel_swap_call k)
    with ok(2) have "cancel_swap e (fst cc) s k = Inr (ops, step e s cc)" by simp
    from cancel_swap_Inr [OF this] assms show ?thesis
      by (auto simp: well_formed_def split: if_splits)
  qed (use ok(2) assms admin_frame [of e "fst cc" s "snd cc" ops "step e s cc"] in
        \<open>simp_all add: well_formed_def\<close>)
qed

lemma well_formed_run: "well_formed e s \<Longrightarrow> well_formed e (run e s ccs)"
  by (induction ccs arbitrary: s) (simp_all add: well_formed_step)

lemma well_formed_reachable: "well_formed e (run e (init mgr md al f) ccs)"
  by (simp add: well_formed_run well_formed_init)

lemma run_append: "run e s (xs @ ys) = run e (run e s xs) ys"
  by (induction xs arbitrary: s) simp_all



lemma counter_step:
  "counter (step e s cc) = counter s + (if is_swap (snd cc) \<and> succeeds e s cc then 1 else 0)"
proof (cases rule: step_cases [of e s cc])
  case fail
  then show ?thesis by simp
next
  case (ok ops)
  show ?thesis
  proof (cases "snd cc")
    case (Swap_call p)
    with ok(2) have "swap e (fst cc) s p = Inr (ops, step e s cc)" by simp
    from swap_Inr [OF this] ok(1) Swap_call show ?thesis
      by auto
  next
    case (Collect_call k)
    with ok(2) have "collect e (fst cc) s k = Inr (ops, step e s cc)" by simp
    from collect_Inr [OF this] Collect_call show ?thesis by auto
  next
    case (Cancel_swap_call k)
    with ok(2) have "cancel_swap e (fst cc) s k = Inr (ops, step e s cc)" by simp
    from cancel_swap_Inr [OF this] Cancel_swap_call show ?thesis by auto
  qed (use ok(2) admin_frame [of e "fst cc" s "snd cc" ops "step e s cc"] in simp_all)
qed

lemma step_swaps_present:
  assumes "well_formed e s" and "swaps s k = Some swp0"
  shows "swaps (step e s cc) k =
           (if succeeds e s cc \<and> snd cc = Collect_call k
            then Some (swp0\<lparr> objkt_amount := objkt_amount swp0 - 1 \<rparr>)
            else if succeeds e s cc \<and> snd cc = Cancel_swap_call k then None
            else Some swp0)"
    and "succeeds e s cc \<and> (snd cc = Collect_call k \<or> snd cc = Cancel_swap_call k)
           \<longrightarrow> 0 < objkt_amount swp0"
proof -
  have "swaps (step e s cc) k =
           (if succeeds e s cc \<and> snd cc = Collect_call k
            then Some (swp0\<lparr> objkt_amount := objkt_amount swp0 - 1 \<rparr>)
            else if succeeds e s cc \<and> snd cc = Cancel_swap_call k then None
            else Some swp0) \<and>
        (succeeds e s cc \<and> (snd cc = Collect_call k \<or> snd cc = Cancel_swap_call k)
           \<longrightarrow> 0 < objkt_amount swp0)"
  proof (cases rule: step_cases [of e s cc])
    case fail
    with assms show ?thesis by simp
  next
    case (ok ops)
    from assms have lt: "k < counter s" by (simp add: well_formed_def)
    show ?thesis
    proof (cases "snd cc")
      case (Swap_call p)
      with ok(2) have "swap e (fst cc) s p = Inr (ops, step e s cc)" by simp
      from swap_Inr [OF this] have "swaps (step e s cc) k = swaps s k"
        using lt by auto
      with assms Swap_call show ?thesis by simp
    next
      case (Collect_call j)
      with ok(2) have "collect e (fst cc) s j = Inr (ops, step e s cc)" by simp
      from collect_Inr [OF this] assms(2) Collect_call ok(1) show ?thesis by auto
    next
      case (Cancel_swap_call j)
      with ok(2) have "cancel_swap e (fst cc) s j = Inr (ops, step e s cc)" by simp
      from cancel_swap_Inr [OF this] assms(2) Cancel_swap_call ok(1) show ?thesis by auto
    qed (use ok(2) assms(2) admin_frame [of e "fst cc" s "snd cc" ops "step e s cc"] in simp_all)
  qed
  then show "swaps (step e s cc) k =
           (if succeeds e s cc \<and> snd cc = Collect_call k
            then Some (swp0\<lparr> objkt_amount := objkt_amount swp0 - 1 \<rparr>)
            else if succeeds e s cc \<and> snd cc = Cancel_swap_call k then None
            else Some swp0)"
    and "succeeds e s cc \<and> (snd cc = Collect_call k \<or> snd cc = Cancel_swap_call k)
           \<longrightarrow> 0 < objkt_amount swp0"
    by blast+
qed

lemma step_swaps_absent:
  assumes "swaps s k = None" and "k < counter s"
  shows "swaps (step e s cc) k = None"
    and "\<not> (succeeds e s cc \<and> (snd cc = Collect_call k \<or> snd cc = Cancel_swap_call k))"
proof -
  have "swaps (step e s cc) k = None \<and>
        \<not> (succeeds e s cc \<and> (snd cc = Collect_call k \<or> snd cc = Cancel_swap_call k))"
  proof (cases rule: step_cases [of e s cc])
    case fail
    with assms show ?thesis by simp
  next
    case (ok ops)
    show ?thesis
    proof (cases "snd cc")
      case (Swap_call p)
      with ok(2) have "swap e (fst cc) s p = Inr (ops, step e s cc)" by simp
      from swap_Inr [OF this] have "swaps (step e s cc) k = swaps s k"
        using assms(2) by auto
      with assms Swap_call show ?thesis by simp
    next
      case (Collect_call j)
      with ok(2) have "collect e (fst cc) s j = Inr (ops, step e s cc)" by simp
      from collect_Inr [OF this] assms(1) Collect_call show ?thesis by auto
    next
      case (Cancel_swap_call j)
      with ok(2) have "cancel_swap e (fst cc) s j = Inr (ops, step e s cc)" by simp
      from cancel_swap_Inr [OF this] assms(1) Cancel_swap_call show ?thesis by auto
    qed (use ok(2) assms(1) admin_frame [of e "fst cc" s "snd cc" ops "step e s cc"] in simp_all)
  qed
  then show "swaps (step e s cc) k = None"
    and "\<not> (succeeds e s cc \<and> (snd cc = Collect_call k \<or> snd cc = Cancel_swap_call k))"
    by blast+
qed



lemma counter_run:
  "counter (run e s ccs) = counter s + length (assigned_ids e s ccs)"
  by (induction ccs arbitrary: s) (simp_all add: counter_step)

lemma assigned_ids_interval:
  "assigned_ids e s ccs = [counter s ..< counter (run e s ccs)]"
proof (induction ccs arbitrary: s)
  case Nil
  show ?case by simp
next
  case (Cons cc ccs)
  show ?case
  proof (cases "is_swap (snd cc) \<and> succeeds e s cc")
    case True
    then have c: "counter (step e s cc) = Suc (counter s)"
      by (simp add: counter_step)
    have "counter s < counter (run e (step e s cc) ccs)"
      unfolding counter_run [of e "step e s cc"] c by simp
    then have "[counter s ..< counter (run e (step e s cc) ccs)]
                 = counter s # [Suc (counter s) ..< counter (run e (step e s cc) ccs)]"
      by (rule upt_conv_Cons)
    with True Cons.IH [of "step e s cc"] c show ?thesis by simp
  next
    case False
    then have "counter (step e s cc) = counter s"
      by (simp add: counter_step)
    with False Cons.IH [of "step e s cc"] show ?thesis by auto
  qed
qed

lemma absent_stays_absent:
  assumes "swaps s k = None" and "k < counter s"
  shows "swaps (run e s ccs) k = None \<and> successes (Collect_call k) e s ccs = 0
         \<and> successes (Cancel_swap_call k) e s ccs = 0"
  using assms
proof (induction ccs arbitrary: s)
  case Nil
  then show ?case by simp
next
  case (Cons cc ccs)
  have "k < counter (step e s cc)" using Cons.prems(2) by (simp add: counter_step)
  from Cons.IH [OF step_swaps_absent(1) [OF Cons.prems] this]
    step_swaps_absent(2) [OF Cons.prems, of e cc]
  show ?case by auto
qed

lemma exhausted_stays:
  assumes "well_formed e s" and "swaps s k = Some swp" and "objkt_amount swp = 0"
  shows "swaps (run e s ccs) k = Some swp"
  using assms
proof (induction ccs arbitrary: s)
  case Nil
  then show ?case by simp
next
  case (Cons cc ccs)
  from step_swaps_present [OF Cons.prems(1,2), of cc] Cons.prems(3)
  have "swaps (step e s cc) k = Some swp" by auto
  from Cons.IH [OF well_formed_step [OF Cons.prems(1)] this Cons.prems(3)]
  show ?case by simp
qed

lemma editions_after_collects:
  assumes "well_formed e s" and "swaps s k = Some swp0"
  shows "successes (Collect_call k) e s ccs \<le> objkt_amount swp0 \<and>
         swaps (run e s ccs) k =
           (if 0 < successes (Cancel_swap_call k) e s ccs then None
            else Some (swp0\<lparr> objkt_amount :=
                          objkt_amount swp0 - successes (Collect_call k) e s ccs \<rparr>))"
  using assms
proof (induction ccs arbitrary: s swp0)
  case Nil
  then show ?case by simp
next
  case (Cons cc ccs)
  note wf = well_formed_step [OF Cons.prems(1), of cc]
  note st = step_swaps_present [OF Cons.prems, of cc]
  have "k < counter s"
    using Cons.prems unfolding well_formed_def by blast
  then have lt: "k < counter (step e s cc)"
    by (simp add: counter_step)
  consider (collect) "succeeds e s cc" "snd cc = Collect_call k"
    | (cancel) "succeeds e s cc" "snd cc = Cancel_swap_call k"
    | (other) "\<not> (succeeds e s cc \<and> snd cc = Collect_call k)"
              "\<not> (succeeds e s cc \<and> snd cc = Cancel_swap_call k)"
    by blast
  then show ?case
  proof cases
    case collect
    from st(2) collect have pos: "0 < objkt_amount swp0" by blast
    from st(1) collect
    have now: "swaps (step e s cc) k = Some (swp0\<lparr> objkt_amount := objkt_amount swp0 - 1 \<rparr>)"
      by simp
    have n: "successes (Collect_call k) e s (cc # ccs)
               = Suc (successes (Collect_call k) e (step e s cc) ccs)"
      using collect by simp
    have m: "successes (Cancel_swap_call k) e s (cc # ccs)
               = successes (Cancel_swap_call k) e (step e s cc) ccs"
      using collect by simp
    from Cons.IH [OF wf now]
    have le: "successes (Collect_call k) e (step e s cc) ccs \<le> objkt_amount swp0 - 1"
      and eq: "swaps (run e (step e s cc) ccs) k =
           (if 0 < successes (Cancel_swap_call k) e (step e s cc) ccs then None
            else Some (swp0\<lparr> objkt_amount :=
                 objkt_amount swp0 - 1 - successes (Collect_call k) e (step e s cc) ccs \<rparr>))"
      by simp_all
    from le pos have "Suc (successes (Collect_call k) e (step e s cc) ccs) \<le> objkt_amount swp0"
      by simp
    moreover have "objkt_amount swp0 - 1 - successes (Collect_call k) e (step e s cc) ccs
        = objkt_amount swp0 - Suc (successes (Collect_call k) e (step e s cc) ccs)"
      by simp
    ultimately show ?thesis
      unfolding n m run.simps eq by simp
  next
    case cancel
    from st(1) cancel have now: "swaps (step e s cc) k = None" by simp
    note ab = absent_stays_absent [OF now lt, of e ccs]
    have n: "successes (Collect_call k) e s (cc # ccs) = 0"
      using cancel ab by simp
    have m: "0 < successes (Cancel_swap_call k) e s (cc # ccs)"
      using cancel by simp
    from ab have "swaps (run e s (cc # ccs)) k = None" by simp
    with n m show ?thesis by simp
  next
    case other
    from st(1) other have now: "swaps (step e s cc) k = Some swp0" by simp
    have n: "successes (Collect_call k) e s (cc # ccs)
               = successes (Collect_call k) e (step e s cc) ccs"
      using other(1) by auto
    have m: "successes (Cancel_swap_call k) e s (cc # ccs)
               = successes (Cancel_swap_call k) e (step e s cc) ccs"
      using other(2) by auto
    from Cons.IH [OF wf now] show ?thesis
      unfolding n m run.simps by simp
  qed
qed

lemma update_fee_Inr:
  assumes "update_fee c s n = Inr (ops, s')"
  shows "sender c = manager s \<and> amount c = 0 \<and> n \<le> 250 \<and> ops = [] \<and> s' = s\<lparr> fee := n \<rparr>"
  using assms by (auto simp: update_fee_def prim_defs split: if_splits)

lemma other_frame:
  assumes "entry_point e c s k = Inr (ops, s')"
  shows "(\<forall>n. k \<noteq> Update_fee_call n) \<longrightarrow> fee s' = fee s"
    and "(\<forall>a. k \<noteq> Add_fa2_call a \<and> k \<noteq> Remove_fa2_call a) \<longrightarrow> allowed_fa2s s' = allowed_fa2s s"
proof -
  have "((\<forall>n. k \<noteq> Update_fee_call n) \<longrightarrow> fee s' = fee s) \<and>
        ((\<forall>a. k \<noteq> Add_fa2_call a \<and> k \<noteq> Remove_fa2_call a) \<longrightarrow> allowed_fa2s s' = allowed_fa2s s)"
  proof (cases k)
    case (Swap_call p)
    with assms have "swap e c s p = Inr (ops, s')" by simp
    from swap_Inr [OF this] Swap_call show ?thesis by simp
  next
    case (Collect_call j)
    with assms have "collect e c s j = Inr (ops, s')" by simp
    from collect_Inr [OF this] Collect_call show ?thesis by auto
  next
    case (Cancel_swap_call j)
    with assms have "cancel_swap e c s j = Inr (ops, s')" by simp
    from cancel_swap_Inr [OF this] Cancel_swap_call show ?thesis by auto
  qed (use assms in \<open>auto simp: update_fee_def update_fee_recipient_def transfer_manager_def
        accept_manager_def update_metadata_def add_fa2_def remove_fa2_def pause_swaps_def
        pause_collects_def prim_defs split: if_splits\<close>)
  then show "(\<forall>n. k \<noteq> Update_fee_call n) \<longrightarrow> fee s' = fee s"
    and "(\<forall>a. k \<noteq> Add_fa2_call a \<and> k \<noteq> Remove_fa2_call a) \<longrightarrow> allowed_fa2s s' = allowed_fa2s s"
    by blast+
qed

lemma fee_step_other:
  assumes "\<forall>n. snd cc \<noteq> Update_fee_call n"
  shows "fee (step e s cc) = fee s"
proof (cases rule: step_cases [of e s cc])
  case fail
  then show ?thesis by simp
next
  case (ok ops)
  from other_frame(1) [OF ok(2)] assms show ?thesis by blast
qed

lemma fee_step_bounded:
  assumes "fee s \<le> 250"
  shows "fee (step e s cc) \<le> 250"
proof (cases "\<exists>n. snd cc = Update_fee_call n")
  case False
  then have "fee (step e s cc) = fee s" by (simp add: fee_step_other)
  with assms show ?thesis by simp
next
  case True
  then obtain n where n: "snd cc = Update_fee_call n" by blast
  show ?thesis
  proof (cases rule: step_cases [of e s cc])
    case fail
    with assms show ?thesis by simp
  next
    case (ok ops)
    with n have "update_fee (fst cc) s n = Inr (ops, step e s cc)" by simp
    from update_fee_Inr [OF this] have "fee (step e s cc) = n" "n \<le> 250"
      by simp_all
    then show ?thesis by simp
  qed
qed

lemma fee_run_bounded: "fee s \<le> 250 \<Longrightarrow> fee (run e s ccs) \<le> 250"
  by (induction ccs arbitrary: s) (simp_all add: fee_step_bounded)

lemma add_fa2_Inr:
  assumes "add_fa2 c s a = Inr (ops, s')"
  shows "sender c = manager s \<and> amount c = 0 \<and> ops = [] \<and>
         allowed_fa2s s' = (allowed_fa2s s)(a \<mapsto> True)"
  using assms by (auto simp: add_fa2_def prim_defs split: if_splits)

lemma remove_fa2_Inr:
  assumes "remove_fa2 c s a = Inr (ops, s')"
  shows "sender c = manager s \<and> amount c = 0 \<and> ops = [] \<and>
         allowed_fa2s s' = (allowed_fa2s s)(a \<mapsto> False)"
  using assms by (auto simp: remove_fa2_def prim_defs split: if_splits)

lemma allowed_step:
  assumes "allowed_fa2s s x \<noteq> None"
  shows "allowed_fa2s (step e s cc) x \<noteq> None"
proof (cases rule: step_cases [of e s cc])
  case fail
  with assms show ?thesis by simp
next
  case (ok ops)
  show ?thesis
  proof (cases "\<forall>a. snd cc \<noteq> Add_fa2_call a \<and> snd cc \<noteq> Remove_fa2_call a")
    case True
    with other_frame(2) [OF ok(2)] assms show ?thesis by simp
  next
    case False
    then consider a where "snd cc = Add_fa2_call a" | a where "snd cc = Remove_fa2_call a"
      by blast
    then show ?thesis
    proof cases
      case 1
      with ok(2) have "add_fa2 (fst cc) s a = Inr (ops, step e s cc)" by simp
      from add_fa2_Inr [OF this] assms show ?thesis by auto
    next
      case 2
      with ok(2) have "remove_fa2 (fst cc) s a = Inr (ops, step e s cc)" by simp
      from remove_fa2_Inr [OF this] assms show ?thesis by auto
    qed
  qed
qed

lemma allowed_run: "allowed_fa2s s x \<noteq> None \<Longrightarrow> allowed_fa2s (run e s ccs) x \<noteq> None"
proof (induction ccs arbitrary: s)
  case Nil
  then show ?case by simp
next
  case (Cons cc ccs)
  from Cons.IH [OF allowed_step [OF Cons.prems]] show ?case by simp
qed

lemma swap_not_allowed:
  assumes "\<not> is_allowed_fa2 s (fa2 p)"
  shows "\<not> succeeds e s (c, Swap_call p)"
    and "\<not> swaps_paused s \<and> amount c = 0 \<longrightarrow> swap e c s p = Inl Token_not_allowed"
  using assms
  by (auto simp: succeeds_def is_allowed_fa2_def swap_def prim_defs split: sum.splits option.splits)

lemma swap_stores:
  assumes "succeeds e s (c, Swap_call p)"
  shows "swaps (step e s (c, Swap_call p)) (counter s) =
           Some \<lparr> fa2 = fa2 p, objkt_id = objkt_id p, objkt_amount = objkt_amount p,
                  xtz_per_objkt = xtz_per_objkt p, royalties = royalties p,
                  creator = creator p, issuer = sender c \<rparr>"
proof -
  from succeeds_entry_point [OF assms]
  have "swap e c s p = Inr (emitted e s (c, Swap_call p), step e s (c, Swap_call p))" by simp
  from swap_Inr [OF this] show ?thesis by simp
qed

lemma exhausted_no_call:
  assumes "swaps s k = Some swp" and "objkt_amount swp = 0"
  shows "\<not> succeeds e s (c, Collect_call k)" and "\<not> succeeds e s (c, Cancel_swap_call k)"
  using assms
  by (auto simp: succeeds_def collect_def cancel_swap_def prim_defs split: sum.splits)

lemma collect_never_negative: "collect e c s k \<noteq> Inl Negative_as_nat"
  by (auto simp: collect_def collect_payments_def prim_defs split: option.splits)

subsection \<open>The sample run\<close>

lemma sample_calls_ids: "assigned_ids sample_env sample_init sample_calls = [0, 1]"
  by (simp add: sample_defs run_defs)

lemma sample_init_swap: "succeeds sample_env sample_init (alice, Swap_call sample_params)"
  by (simp add: sample_defs run_defs)

lemma sample_cancelled_facts:
  "swaps sample_cancelled 0 = None" "counter sample_cancelled = 1"
  by (simp_all add: sample_defs run_defs)

lemma sample_exhausted_swap: "swaps sample_exhausted 0 = Some sample_sold_out"
  by (simp add: sample_sold_out_def sample_defs run_defs)

lemma sample_three_collects:
  "successes (Collect_call 0) sample_env sample_open
     [(bob, Collect_call 0), (bob, Collect_call 0), (bob, Collect_call 0)] = 2"
  "successes (Cancel_swap_call 0) sample_env sample_open
     [(bob, Collect_call 0), (bob, Collect_call 0), (bob, Collect_call 0)] = 0"
  by (simp_all add: sample_defs run_defs)

subsection \<open>Swap ids\<close>

text \<open>
  C2. From the initial storage, whatever calls are made, the keys at which the successful
  \<^verbatim>\<open>swap\<close> calls store their records are \<open>0, 1, 2, \<dots>\<close> in order, with no key twice, and
  the counter is the number of them. A call changes the counter only when it is a
  successful \<^verbatim>\<open>swap\<close>, which adds exactly one and stores its record at the old counter. A
  key below the counter whose record is gone (a cancelled swap) never holds a record again.
\<close>

theorem swap_ids_sequential:
  "assigned_ids e (init mgr md al f) ccs = [0 ..< length (assigned_ids e (init mgr md al f) ccs)] \<and>
   distinct (assigned_ids e (init mgr md al f) ccs) \<and>
   counter (run e (init mgr md al f) ccs) = length (assigned_ids e (init mgr md al f) ccs) \<and>
   counter (step e s cc) = counter s + (if is_swap (snd cc) \<and> succeeds e s cc then 1 else 0) \<and>
   (succeeds e s (c, Swap_call p) \<longrightarrow>
      swaps (step e s (c, Swap_call p)) (counter s) =
        Some \<lparr> fa2 = fa2 p, objkt_id = objkt_id p, objkt_amount = objkt_amount p,
               xtz_per_objkt = xtz_per_objkt p, royalties = royalties p,
               creator = creator p, issuer = sender c \<rparr>) \<and>
   (swaps s k = None \<and> k < counter s \<longrightarrow> swaps (run e s ccs') k = None)"
proof -
  have c0: "counter (init mgr md al f) = 0" by (simp add: init_def)
  have n: "counter (run e (init mgr md al f) ccs) = length (assigned_ids e (init mgr md al f) ccs)"
    using counter_run [of e "init mgr md al f" ccs] c0 by simp
  have i: "assigned_ids e (init mgr md al f) ccs = [0 ..< length (assigned_ids e (init mgr md al f) ccs)]"
    using assigned_ids_interval [of e "init mgr md al f" ccs] unfolding n c0 .
  have d: "distinct (assigned_ids e (init mgr md al f) ccs)"
    using distinct_upt [of 0 "counter (run e (init mgr md al f) ccs)"]
    unfolding assigned_ids_interval [of e "init mgr md al f" ccs] c0 .
  have a: "swaps s k = None \<and> k < counter s \<longrightarrow> swaps (run e s ccs') k = None"
    using absent_stays_absent [of s k e ccs'] by blast
  from i d n counter_step [of e s cc] swap_stores [of e s c p] a show ?thesis by blast
qed

theorem swap_ids_sequential_witness:
  "assigned_ids sample_env sample_init sample_calls
     = [0 ..< length (assigned_ids sample_env sample_init sample_calls)] \<and>
   assigned_ids sample_env sample_init sample_calls = [0, 1] \<and>
   counter (run sample_env sample_init sample_calls) = 2 \<and>
   succeeds sample_env sample_init (alice, Swap_call sample_params) \<and>
   swaps (step sample_env sample_init (alice, Swap_call sample_params)) (counter sample_init)
     = Some sample_swap \<and>
   swaps sample_cancelled 0 = None \<and> 0 < counter sample_cancelled \<and>
   swaps (run sample_env sample_cancelled [(alice, Swap_call sample_params)]) 0 = None"
proof -
  note t1 = swap_ids_sequential [where e = sample_env and mgr = "''tz1manager''" and md = Map.empty
      and al = "[''KT1objkt'' \<mapsto> True]" and f = 25 and ccs = sample_calls
      and s = sample_init and c = alice and p = sample_params, folded sample_init_def]
  note t2 = swap_ids_sequential [where e = sample_env and s = sample_cancelled and k = 0
      and ccs' = "[(alice, Swap_call sample_params)]"]
  have a: "succeeds sample_env sample_init (alice, Swap_call sample_params)"
    by (rule sample_init_swap)
  have b: "swaps sample_cancelled 0 = None \<and> 0 < counter sample_cancelled"
    by (simp add: sample_cancelled_facts)
  from t1 have i: "assigned_ids sample_env sample_init sample_calls
     = [0 ..< length (assigned_ids sample_env sample_init sample_calls)]"
    and n: "counter (run sample_env sample_init sample_calls)
              = length (assigned_ids sample_env sample_init sample_calls)"
    by blast+
  from t1 a have "swaps (step sample_env sample_init (alice, Swap_call sample_params)) (counter sample_init)
     = Some \<lparr> fa2 = fa2 sample_params, objkt_id = objkt_id sample_params,
               objkt_amount = objkt_amount sample_params,
               xtz_per_objkt = xtz_per_objkt sample_params, royalties = royalties sample_params,
               creator = creator sample_params, issuer = sender alice \<rparr>"
    by blast
  then have r: "swaps (step sample_env sample_init (alice, Swap_call sample_params)) (counter sample_init)
     = Some sample_swap"
    by (simp add: sample_params_def sample_swap_def alice_def)
  from t2 b have z: "swaps (run sample_env sample_cancelled [(alice, Swap_call sample_params)]) 0 = None"
    by blast
  from i n a b r z sample_calls_ids show ?thesis by simp
qed

subsection \<open>Remaining editions\<close>

text \<open>
  C3. After a successful \<^verbatim>\<open>swap\<close> of \<open>N\<close> editions in a reachable storage, and any
  further calls, the number \<open>n\<close> of successful \<^verbatim>\<open>collect\<close> calls on its id is at most
  \<open>N\<close>, and the record is either gone, exactly when a \<^verbatim>\<open>cancel_swap\<close> on the id
  succeeded, or the stored record with \<open>N - n\<close> editions. The decrement of \<^verbatim>\<open>collect\<close> never
  goes below zero, and \<^verbatim>\<open>collect\<close> on a swap with no editions left fails.
\<close>

theorem remaining_editions:
  assumes "s0 = run e (init mgr md al f) ccs0"
    and "succeeds e s0 (c, Swap_call p)"
    and "s1 = step e s0 (c, Swap_call p)"
  shows "successes (Collect_call (counter s0)) e s1 ccs \<le> objkt_amount p \<and>
         swaps (run e s1 ccs) (counter s0) =
           (if 0 < successes (Cancel_swap_call (counter s0)) e s1 ccs then None
            else Some \<lparr> fa2 = fa2 p, objkt_id = objkt_id p,
                        objkt_amount = objkt_amount p - successes (Collect_call (counter s0)) e s1 ccs,
                        xtz_per_objkt = xtz_per_objkt p, royalties = royalties p,
                        creator = creator p, issuer = sender c \<rparr>) \<and>
         collect e c' s k \<noteq> Inl Negative_as_nat \<and>
         (swaps s k = Some swp \<and> objkt_amount swp = 0 \<longrightarrow> \<not> succeeds e s (c', Collect_call k))"
proof -
  have wf: "well_formed e s1"
    unfolding assms(3) assms(1) by (intro well_formed_step well_formed_reachable)
  have st: "swaps s1 (counter s0) =
           Some \<lparr> fa2 = fa2 p, objkt_id = objkt_id p, objkt_amount = objkt_amount p,
                  xtz_per_objkt = xtz_per_objkt p, royalties = royalties p,
                  creator = creator p, issuer = sender c \<rparr>"
    unfolding assms(3) by (rule swap_stores [OF assms(2)])
  from editions_after_collects [OF wf st, of ccs] exhausted_no_call(1) [of s k swp e c']
    collect_never_negative [of e c' s k]
  show ?thesis by simp
qed

theorem remaining_editions_witness:
  "sample_init = run sample_env sample_init [] \<and>
   succeeds sample_env sample_init (alice, Swap_call sample_params) \<and>
   sample_open = step sample_env sample_init (alice, Swap_call sample_params) \<and>
   successes (Collect_call 0) sample_env sample_open
     [(bob, Collect_call 0), (bob, Collect_call 0), (bob, Collect_call 0)] = 2 \<and>
   swaps (run sample_env sample_open
     [(bob, Collect_call 0), (bob, Collect_call 0), (bob, Collect_call 0)]) 0 = Some sample_sold_out \<and>
   swaps sample_exhausted 0 = Some sample_sold_out \<and> objkt_amount sample_sold_out = 0 \<and>
   \<not> succeeds sample_env sample_exhausted (bob, Collect_call 0)"
proof -
  have h1: "sample_init = run sample_env (init ''tz1manager'' Map.empty [''KT1objkt'' \<mapsto> True] 25) []"
    by (simp add: sample_init_def)
  have h2: "succeeds sample_env sample_init (alice, Swap_call sample_params)"
    by (rule sample_init_swap)
  have h3: "sample_open = step sample_env sample_init (alice, Swap_call sample_params)"
    by (simp add: sample_open_def)
  have h4: "swaps sample_exhausted 0 = Some sample_sold_out \<and> objkt_amount sample_sold_out = 0"
    by (simp add: sample_exhausted_swap) (simp add: sample_sold_out_def)
  have c0: "counter sample_init = 0"
    by (simp add: sample_defs)
  note t = remaining_editions [OF h1 h2 h3,
      where ccs = "[(bob, Collect_call 0), (bob, Collect_call 0), (bob, Collect_call 0)]"
        and s = sample_exhausted and k = 0 and swp = sample_sold_out and c' = bob,
      unfolded c0 sample_three_collects]
  from t have "swaps (run sample_env sample_open
     [(bob, Collect_call 0), (bob, Collect_call 0), (bob, Collect_call 0)]) 0 =
       Some \<lparr> fa2 = fa2 sample_params, objkt_id = objkt_id sample_params,
               objkt_amount = objkt_amount sample_params - 2,
               xtz_per_objkt = xtz_per_objkt sample_params, royalties = royalties sample_params,
               creator = creator sample_params, issuer = sender alice \<rparr>"
    by simp
  then have r: "swaps (run sample_env sample_open
     [(bob, Collect_call 0), (bob, Collect_call 0), (bob, Collect_call 0)]) 0 = Some sample_sold_out"
    by (simp add: sample_params_def sample_sold_out_def alice_def)
  from t h4 have f: "\<not> succeeds sample_env sample_exhausted (bob, Collect_call 0)"
    by blast
  from h2 h3 h4 r f sample_three_collects(1) show ?thesis by simp
qed

text \<open>
  C5. In a reachable storage, a swap with no editions left stays in the swaps big map,
  unchanged, after any further calls, and \<^verbatim>\<open>collect\<close> and \<^verbatim>\<open>cancel_swap\<close> on its id fail in
  every storage reached.
\<close>

theorem exhausted_swap_persists:
  assumes "s = run e (init mgr md al f) ccs0"
    and "swaps s k = Some swp"
    and "objkt_amount swp = 0"
  shows "swaps (run e s ccs) k = Some swp \<and>
         \<not> succeeds e (run e s ccs) (c, Collect_call k) \<and>
         \<not> succeeds e (run e s ccs) (c, Cancel_swap_call k)"
proof -
  have wf: "well_formed e s"
    unfolding assms(1) by (rule well_formed_reachable)
  from exhausted_stays [OF wf assms(2,3)]
  have p: "swaps (run e s ccs) k = Some swp" .
  from p exhausted_no_call [OF p assms(3)] show ?thesis by blast
qed

theorem exhausted_swap_persists_witness:
  "swaps sample_exhausted 0 = Some sample_sold_out \<and> objkt_amount sample_sold_out = 0 \<and>
   swaps (run sample_env sample_exhausted
            [(alice, Cancel_swap_call 0), (bob, Collect_call 0), (alice, Swap_call sample_params)]) 0
     = Some sample_sold_out \<and>
   \<not> succeeds sample_env (run sample_env sample_exhausted
            [(alice, Cancel_swap_call 0), (bob, Collect_call 0), (alice, Swap_call sample_params)])
         (bob, Collect_call 0) \<and>
   \<not> succeeds sample_env (run sample_env sample_exhausted
            [(alice, Cancel_swap_call 0), (bob, Collect_call 0), (alice, Swap_call sample_params)])
         (alice, Cancel_swap_call 0)"
proof -
  have h1: "sample_exhausted = run sample_env (init ''tz1manager'' Map.empty [''KT1objkt'' \<mapsto> True] 25)
              ([(alice, Swap_call sample_params)] @ [(bob, Collect_call 0), (bob, Collect_call 0)])"
    unfolding run_append by (simp add: sample_exhausted_def sample_open_def sample_init_def)
  have h2: "swaps sample_exhausted 0 = Some sample_sold_out"
    by (rule sample_exhausted_swap)
  have h3: "objkt_amount sample_sold_out = 0"
    by (simp add: sample_sold_out_def)
  from exhausted_swap_persists [OF h1 h2 h3,
      where ccs = "[(alice, Cancel_swap_call 0), (bob, Collect_call 0), (alice, Swap_call sample_params)]"
        and c = bob]
    exhausted_swap_persists [OF h1 h2 h3,
      where ccs = "[(alice, Cancel_swap_call 0), (bob, Collect_call 0), (alice, Swap_call sample_params)]"
        and c = alice]
    h2 h3
  show ?thesis by blast
qed

subsection \<open>Cancelling a swap\<close>

text \<open>
  C6. In a reachable storage, \<^verbatim>\<open>cancel_swap\<close> called by the issuer of an existing swap,
  with no tez attached and at least one edition left, emits the transfer of all remaining
  editions from the marketplace to the issuer and deletes the record; afterwards
  \<^verbatim>\<open>has_swap\<close> on the id is false and \<^verbatim>\<open>get_swap\<close> on it fails with a state error.
\<close>

theorem cancel_swap_by_issuer:
  assumes "s = run e (init mgr md al f) ccs0"
    and "swaps s k = Some swp"
    and "sender c = issuer swp" and "amount c = 0" and "0 < objkt_amount swp"
  shows "cancel_swap e c s k =
           Inr ([Transfer [Transfer_item (self_address e)
                             [Tx (issuer swp) (objkt_id swp) (objkt_amount swp)]] 0 (fa2 swp)],
                s\<lparr> swaps := (swaps s)(k := None) \<rparr>) \<and>
         has_swap (step e s (c, Cancel_swap_call k)) k = False \<and>
         get_swap (step e s (c, Cancel_swap_call k)) k = Inl Swap_id_missing \<and>
         classify Swap_id_missing = Some StateError"
proof -
  have "well_formed e s"
    unfolding assms(1) by (rule well_formed_reachable)
  with assms(2) have te: "transfer_entry e (fa2 swp)"
    unfolding well_formed_def by blast
  have r: "cancel_swap e c s k =
           Inr ([Transfer [Transfer_item (self_address e)
                             [Tx (issuer swp) (objkt_id swp) (objkt_amount swp)]] 0 (fa2 swp)],
                s\<lparr> swaps := (swaps s)(k := None) \<rparr>)"
    using assms(2-5) te by (simp add: cancel_swap_def prim_defs)
  then have "step e s (c, Cancel_swap_call k) = s\<lparr> swaps := (swaps s)(k := None) \<rparr>"
    by (simp add: step_def)
  then have "has_swap (step e s (c, Cancel_swap_call k)) k = False"
    "get_swap (step e s (c, Cancel_swap_call k)) k = Inl Swap_id_missing"
    by (simp_all add: has_swap_def get_swap_def prim_defs)
  with r show ?thesis by simp
qed

theorem cancel_swap_by_issuer_witness:
  "swaps sample_open 0 = Some sample_swap \<and> sender alice = issuer sample_swap \<and>
   amount alice = 0 \<and> 0 < objkt_amount sample_swap \<and>
   emitted sample_env sample_open (alice, Cancel_swap_call 0)
     = [Transfer [Transfer_item ''KT1market'' [Tx ''tz1alice'' 7 2]] 0 ''KT1objkt''] \<and>
   has_swap (step sample_env sample_open (alice, Cancel_swap_call 0)) 0 = False \<and>
   get_swap (step sample_env sample_open (alice, Cancel_swap_call 0)) 0 = Inl Swap_id_missing"
proof -
  have h1: "sample_open = run sample_env (init ''tz1manager'' Map.empty [''KT1objkt'' \<mapsto> True] 25)
              [(alice, Swap_call sample_params)]"
    by (simp add: sample_open_def sample_init_def)
  have h2: "swaps sample_open 0 = Some sample_swap"
    by (rule sample_open_swap)
  have h3: "sender alice = issuer sample_swap" "amount alice = 0" "0 < objkt_amount sample_swap"
    by (simp_all add: alice_def sample_swap_def)
  note t = cancel_swap_by_issuer [OF h1 h2 h3]
  from t have "emitted sample_env sample_open (alice, Cancel_swap_call 0)
     = [Transfer [Transfer_item (self_address sample_env)
                   [Tx (issuer sample_swap) (objkt_id sample_swap) (objkt_amount sample_swap)]] 0
          (fa2 sample_swap)]"
    by (simp add: emitted_def)
  then have e: "emitted sample_env sample_open (alice, Cancel_swap_call 0)
     = [Transfer [Transfer_item ''KT1market'' [Tx ''tz1alice'' 7 2]] 0 ''KT1objkt'']"
    by (simp add: sample_env_def sample_swap_def)
  from t h2 h3 e show ?thesis by blast
qed

subsection \<open>The allowed token contracts\<close>

text \<open>
  C8. \<^verbatim>\<open>remove_fa2\<close> succeeds exactly for the manager with no tez attached; it leaves the
  token contract in the big map with the value false, so that \<^verbatim>\<open>is_allowed_fa2\<close>, which
  returns the stored flag or false for a missing key, answers false, and a \<^verbatim>\<open>swap\<close> of
  a token of that contract fails (with the message that the token cannot be traded, when
  swaps are not paused and no tez are attached). No call ever removes a key of the big map.
\<close>

theorem remove_fa2_is_soft:
  "(succeeds e s (c, Remove_fa2_call a) \<longleftrightarrow> sender c = manager s \<and> amount c = 0) \<and>
   (succeeds e s (c, Remove_fa2_call a) \<longrightarrow>
      allowed_fa2s (step e s (c, Remove_fa2_call a)) a = Some False \<and>
      is_allowed_fa2 (step e s (c, Remove_fa2_call a)) a = False \<and>
      (fa2 p = a \<longrightarrow> \<not> succeeds e (step e s (c, Remove_fa2_call a)) (c', Swap_call p)) \<and>
      (fa2 p = a \<and> \<not> swaps_paused (step e s (c, Remove_fa2_call a)) \<and> amount c' = 0 \<longrightarrow>
         swap e c' (step e s (c, Remove_fa2_call a)) p = Inl Token_not_allowed \<and>
         classify Token_not_allowed = Some ValidationError)) \<and>
   is_allowed_fa2 s x = (case allowed_fa2s s x of None \<Rightarrow> False | Some b \<Rightarrow> b) \<and>
   (allowed_fa2s s x \<noteq> None \<longrightarrow> allowed_fa2s (run e s ccs) x \<noteq> None)"
proof -
  have iff: "succeeds e s (c, Remove_fa2_call a) \<longleftrightarrow> sender c = manager s \<and> amount c = 0"
    by (auto simp: succeeds_def remove_fa2_def prim_defs)
  have after: "allowed_fa2s (step e s (c, Remove_fa2_call a)) a = Some False"
    if "succeeds e s (c, Remove_fa2_call a)"
    using that unfolding iff by (simp add: step_def remove_fa2_def prim_defs)
  then have view: "is_allowed_fa2 (step e s (c, Remove_fa2_call a)) a = False"
    if "succeeds e s (c, Remove_fa2_call a)"
    using that by (simp add: is_allowed_fa2_def get_default_def)
  have sw: "\<not> succeeds e (step e s (c, Remove_fa2_call a)) (c', Swap_call p)"
    "\<not> swaps_paused (step e s (c, Remove_fa2_call a)) \<and> amount c' = 0 \<longrightarrow>
         swap e c' (step e s (c, Remove_fa2_call a)) p = Inl Token_not_allowed"
    if "succeeds e s (c, Remove_fa2_call a)" "fa2 p = a"
    using swap_not_allowed [where s = "step e s (c, Remove_fa2_call a)" and p = p and e = e and c = c']
      view that by simp_all
  have q: "is_allowed_fa2 s x = (case allowed_fa2s s x of None \<Rightarrow> False | Some b \<Rightarrow> b)"
    by (simp add: is_allowed_fa2_def get_default_def)
  have k: "allowed_fa2s s x \<noteq> None \<longrightarrow> allowed_fa2s (run e s ccs) x \<noteq> None"
    using allowed_run [where s = s and x = x and e = e and ccs = ccs] by blast
  have v: "classify Token_not_allowed = Some ValidationError" by simp
  from iff after view sw q k v show ?thesis by blast
qed

theorem remove_fa2_is_soft_witness:
  "sender the_manager = manager sample_init \<and> amount the_manager = 0 \<and>
   succeeds sample_env sample_init (the_manager, Remove_fa2_call ''KT1objkt'') \<and>
   allowed_fa2s (step sample_env sample_init (the_manager, Remove_fa2_call ''KT1objkt'')) ''KT1objkt''
     = Some False \<and>
   is_allowed_fa2 (step sample_env sample_init (the_manager, Remove_fa2_call ''KT1objkt'')) ''KT1objkt''
     = False \<and>
   fa2 sample_params = ''KT1objkt'' \<and>
   \<not> swaps_paused (step sample_env sample_init (the_manager, Remove_fa2_call ''KT1objkt'')) \<and>
   amount alice = 0 \<and>
   swap sample_env alice (step sample_env sample_init (the_manager, Remove_fa2_call ''KT1objkt''))
     sample_params = Inl Token_not_allowed \<and>
   allowed_fa2s sample_init ''KT1objkt'' \<noteq> None \<and>
   allowed_fa2s (run sample_env sample_init
       [(the_manager, Remove_fa2_call ''KT1objkt''), (alice, Swap_call sample_params)]) ''KT1objkt''
     \<noteq> None"
proof -
  have m: "sender the_manager = manager sample_init \<and> amount the_manager = 0"
    by (simp add: sample_defs)
  have p: "fa2 sample_params = ''KT1objkt''" "amount alice = 0"
    by (simp_all add: sample_defs)
  have q: "\<not> swaps_paused (step sample_env sample_init (the_manager, Remove_fa2_call ''KT1objkt''))"
    by (simp add: sample_defs step_def remove_fa2_def prim_defs)
  have k: "allowed_fa2s sample_init ''KT1objkt'' \<noteq> None"
    by (simp add: sample_defs)
  note t = remove_fa2_is_soft [where e = sample_env and s = sample_init and c = the_manager
      and a = "''KT1objkt''" and p = sample_params and c' = alice and x = "''KT1objkt''"
      and ccs = "[(the_manager, Remove_fa2_call ''KT1objkt''), (alice, Swap_call sample_params)]"]
  from t m have s1: "succeeds sample_env sample_init (the_manager, Remove_fa2_call ''KT1objkt'')"
    by blast
  from t s1 p q k m show ?thesis by blast
qed

subsection \<open>The bound of the fee\<close>

text \<open>
  C9. When the contract is initialised with a fee of at most 250, the fee is at most 250
  in every reachable storage: \<^verbatim>\<open>update_fee\<close> fails for a new fee above 250 and leaves the
  fee as it was, and no other entry point changes the fee. The constructor stores the fee
  it is given without a check, so the initial storage, which is reachable, has any fee.
\<close>

theorem fee_bounded:
  "(f \<le> 250 \<longrightarrow> fee (run e (init mgr md al f) ccs) \<le> 250) \<and>
   (250 < new_fee \<longrightarrow> \<not> succeeds e s (c, Update_fee_call new_fee) \<and>
       fee (step e s (c, Update_fee_call new_fee)) = fee s) \<and>
   (250 < new_fee \<and> sender c = manager s \<and> amount c = 0 \<longrightarrow>
       update_fee c s new_fee = Inl Fee_too_high) \<and>
   ((\<forall>n. snd cc \<noteq> Update_fee_call n) \<longrightarrow> fee (step e s cc) = fee s) \<and>
   fee (init mgr md al f) = f \<and>
   fee (run e (init mgr md al f) []) = f"
proof -
  have a: "f \<le> 250 \<Longrightarrow> fee (run e (init mgr md al f) ccs) \<le> 250"
    by (rule fee_run_bounded) (simp add: init_def)
  have b: "\<not> succeeds e s (c, Update_fee_call new_fee)" if "250 < new_fee"
    using that by (auto simp: succeeds_def update_fee_def prim_defs)
  then have b': "fee (step e s (c, Update_fee_call new_fee)) = fee s" if "250 < new_fee"
    using that by (auto simp: succeeds_def step_def split: sum.splits)
  have d: "update_fee c s new_fee = Inl Fee_too_high"
    if "250 < new_fee \<and> sender c = manager s \<and> amount c = 0"
    using that by (simp add: update_fee_def prim_defs)
  have g: "(\<forall>n. snd cc \<noteq> Update_fee_call n) \<Longrightarrow> fee (step e s cc) = fee s"
    by (rule fee_step_other)
  have h: "fee (init mgr md al f) = f" "fee (run e (init mgr md al f) []) = f"
    by (simp_all add: init_def)
  from a b b' d g h show ?thesis by blast
qed

theorem fee_bounded_witness:
  "(25::nat) \<le> 250 \<and>
   fee (run sample_env sample_init
          [(the_manager, Update_fee_call 300), (the_manager, Update_fee_call 100)]) \<le> 250 \<and>
   fee (run sample_env sample_init
          [(the_manager, Update_fee_call 300), (the_manager, Update_fee_call 100)]) = 100 \<and>
   (250::nat) < 300 \<and> sender the_manager = manager sample_init \<and> amount the_manager = 0 \<and>
   update_fee the_manager sample_init 300 = Inl Fee_too_high \<and>
   fee (step sample_env sample_init (the_manager, Update_fee_call 300)) = fee sample_init \<and>
   fee (step sample_env sample_init (alice, Swap_call sample_params)) = fee sample_init \<and>
   fee (init ''tz1manager'' Map.empty Map.empty 999) = 999"
proof -
  have a: "(25::nat) \<le> 250" "(250::nat) < 300" by simp_all
  have m: "sender the_manager = manager sample_init \<and> amount the_manager = 0"
    by (simp add: sample_defs)
  have o: "\<forall>n. snd (alice, Swap_call sample_params) \<noteq> Update_fee_call n" by simp
  have v: "fee (run sample_env sample_init
          [(the_manager, Update_fee_call 300), (the_manager, Update_fee_call 100)]) = 100"
    by (simp add: sample_defs step_def update_fee_def prim_defs)
  note t1 = fee_bounded [where f = 25 and e = sample_env and mgr = "''tz1manager''" and md = Map.empty
      and al = "[''KT1objkt'' \<mapsto> True]"
      and ccs = "[(the_manager, Update_fee_call 300), (the_manager, Update_fee_call 100)]"
      and new_fee = 300 and s = sample_init and c = the_manager
      and cc = "(alice, Swap_call sample_params)", folded sample_init_def]
  note t2 = fee_bounded [where f = 999 and mgr = "''tz1manager''" and md = Map.empty and al = Map.empty]
  from t2 have i: "fee (init ''tz1manager'' Map.empty Map.empty 999) = 999" by blast
  from t1 a m o have
    "fee (run sample_env sample_init
          [(the_manager, Update_fee_call 300), (the_manager, Update_fee_call 100)]) \<le> 250"
    "update_fee the_manager sample_init 300 = Inl Fee_too_high"
    "fee (step sample_env sample_init (the_manager, Update_fee_call 300)) = fee sample_init"
    "fee (step sample_env sample_init (alice, Swap_call sample_params)) = fee sample_init"
    by blast+
  with a m v i show ?thesis by blast
qed

end
